theory Spec2Isabelle
  imports Main "HOL-Library.Word" "HOL-Library.Multiset" "HOL-Library.AList"
begin

section \<open>The todo script of the chat bot (scripts/todos.js)\<close>

text \<open>
  The script registers three listeners on the robot: one lists the todo files of the
  directory \<open>todos\<close>, one adds a file named by a random UUID, one deletes the file named
  by an id. Every listener issues calls of Node's \<open>fs\<close> module and answers from their
  callbacks with \<open>msg.reply\<close>.

  JavaScript strings are modelled as \<open>string\<close>, whose characters are the code units
  \<open>0..255\<close>; file contents are byte lists. What Node and the operating system decide
  (whether a call fails and with which error, in which order the pending reads complete,
  how a buffer is decoded when it is concatenated to a string, which UUID is drawn) is an
  argument of the model, and so are the name and the alias of the robot, so that every
  theorem holds for each of their choices.
\<close>

subsection \<open>Data: paths, buffers, the file system, the observable effects\<close>

type_synonym buffer = "8 word list"

datatype errno = ENOENT | EACCES | EIO | ENOSPC | ENOTDIR

text \<open>
  The file system is an association list from paths, relative to the working directory of
  the process, to file contents, in the order in which a directory is enumerated.
\<close>

type_synonym filesystem = "(string \<times> buffer) list"

datatype fs_call =
    ReadDir string
  | ReadFile string
  | WriteFile string buffer
  | Unlink string

record world =
  disk :: filesystem
  replies :: "string list"
  calls :: "fs_call list"

definition DATA_DIR :: string where
  "DATA_DIR = ''todos''"

definition msg_reply :: "string \<Rightarrow> world \<Rightarrow> world" where
  "msg_reply text w = w\<lparr>replies := replies w @ [text]\<rparr>"

definition issue :: "fs_call \<Rightarrow> world \<Rightarrow> world" where
  "issue c w = w\<lparr>calls := calls w @ [c]\<rparr>"

subsection \<open>Node's \<open>path.join\<close> (POSIX)\<close>

text \<open>
  \<open>path.join\<close> concatenates its non-empty arguments with \<open>/\<close> and normalises the result:
  empty and \<open>.\<close> segments are dropped, a \<open>..\<close> segment removes the segment before it, or
  is kept at the front of a relative path.
\<close>

fun split_path :: "string \<Rightarrow> string list" where
  "split_path [] = [[]]"
| "split_path (c # cs) =
     (if c = CHR ''/'' then [] # split_path cs
      else (c # hd (split_path cs)) # tl (split_path cs))"

fun normalizeString :: "bool \<Rightarrow> string list \<Rightarrow> string list \<Rightarrow> string list" where
  "normalizeString allowAboveRoot res [] = rev res"
| "normalizeString allowAboveRoot res (seg # segs) =
     (if seg = [] \<or> seg = ''.'' then normalizeString allowAboveRoot res segs
      else if seg = ''..'' then
        (if res \<noteq> [] \<and> hd res \<noteq> ''..''
         then normalizeString allowAboveRoot (tl res) segs
         else if allowAboveRoot
         then normalizeString allowAboveRoot (''..'' # res) segs
         else normalizeString allowAboveRoot res segs)
      else normalizeString allowAboveRoot (seg # res) segs)"

fun join_segments :: "string list \<Rightarrow> string" where
  "join_segments [] = []"
| "join_segments [seg] = seg"
| "join_segments (seg # segs) = seg @ ''/'' @ join_segments segs"

definition normalize :: "string \<Rightarrow> string" where
  "normalize p =
     (if p = [] then ''.''
      else
        let isAbsolute = (hd p = CHR ''/'');
            trailingSeparator = (last p = CHR ''/'');
            q = join_segments (normalizeString (\<not> isAbsolute) [] (split_path p))
        in if q = [] then (if isAbsolute then ''/'' else if trailingSeparator then ''./'' else ''.'')
           else (if isAbsolute then ''/'' else []) @ q @ (if trailingSeparator then ''/'' else []))"

definition path_join :: "string \<Rightarrow> string \<Rightarrow> string" where
  "path_join a b =
     (let joined = (if a = [] then b else if b = [] then a else a @ ''/'' @ b)
      in if joined = [] then ''.'' else normalize joined)"

subsection \<open>Node's \<open>fs\<close> calls\<close>

text \<open>
  Each call takes the error the operating system reports for it, if any (\<open>fault\<close>): a
  missing directory, a permission, a full disk and so on. A call that is not failed from
  outside fails by itself where the file it needs is missing. \<open>readdir\<close> gives the names of
  the direct children of the directory. \<open>readdir\<close> and \<open>readFile\<close> change nothing, and an
  \<open>unlink\<close> that fails removes nothing.

  \<open>writeFile\<close> opens the file, which creates it or empties the one that exists, and then
  writes the data. It can fail at the open, and the file system is as before, or at a
  write, after the open, and then the file is there and holds the bytes written before
  the error, possibly none.
\<close>

datatype write_failure =
    OpenFails errno
  | WriteFails errno nat

definition child_of :: "string \<Rightarrow> string \<Rightarrow> string option" where
  "child_of dir p =
     (let name = drop (length dir + 1) p
      in if take (length dir + 1) p = dir @ ''/'' \<and> name \<noteq> [] \<and> CHR ''/'' \<notin> set name
         then Some name else None)"

definition fs_readdir :: "errno option \<Rightarrow> string \<Rightarrow> filesystem \<Rightarrow> errno + string list" where
  "fs_readdir fault dir fs =
     (case fault of
        Some e \<Rightarrow> Inl e
      | None \<Rightarrow> Inr (List.map_filter (\<lambda>(p, data). child_of dir p) fs))"

definition fs_readFile :: "errno option \<Rightarrow> string \<Rightarrow> filesystem \<Rightarrow> errno + buffer" where
  "fs_readFile fault p fs =
     (case fault of
        Some e \<Rightarrow> Inl e
      | None \<Rightarrow> (case map_of fs p of None \<Rightarrow> Inl ENOENT | Some data \<Rightarrow> Inr data))"

definition fs_writeFile ::
  "write_failure option \<Rightarrow> string \<Rightarrow> buffer \<Rightarrow> filesystem \<Rightarrow> errno option \<times> filesystem" where
  "fs_writeFile fault p data fs =
     (case fault of
        Some (OpenFails e) \<Rightarrow> (Some e, fs)
      | Some (WriteFails e written) \<Rightarrow> (Some e, AList.update p (take written data) fs)
      | None \<Rightarrow> (None, AList.update p data fs))"

definition fs_unlink :: "errno option \<Rightarrow> string \<Rightarrow> filesystem \<Rightarrow> errno option \<times> filesystem" where
  "fs_unlink fault p fs =
     (case fault of
        Some e \<Rightarrow> (Some e, fs)
      | None \<Rightarrow>
          (case map_of fs p of
             None \<Rightarrow> (Some ENOENT, fs)
           | Some data \<Rightarrow> (None, AList.delete p fs)))"

text \<open>
  The encoding \<open>'ascii'\<close> of \<open>fs.writeFile\<close> stores one byte for each code unit of the
  string, the low eight bits of the unit.
\<close>

definition ascii_encode :: "string \<Rightarrow> buffer" where
  "ascii_encode s = map of_char s"

subsection \<open>The listener of \<open>show my todo list\<close>\<close>

text \<open>
  The reads are issued in the order of the enumeration; their callbacks run in the order
  in which the reads complete, which Node decides. A schedule picks, at each step, one of
  the reads still pending; once it is exhausted the rest complete in the order of issue.
  Every order of completion is the result of some schedule (\<open>completion_order_any\<close> below).
  The handler is modelled alone: no other command changes the directory between its
  \<open>readdir\<close> and its reads.
\<close>

function completion_order :: "nat list \<Rightarrow> 'a list \<Rightarrow> 'a list" where
  "completion_order sched [] = []"
| "completion_order [] (p # ps) = p # ps"
| "completion_order (n # sched) (p # ps) =
     (let i = n mod length (p # ps)
      in ((p # ps) ! i) # completion_order sched (take i (p # ps) @ drop (Suc i) (p # ps)))"
  by pat_completeness auto
termination
  by (relation "measure (\<lambda>(sched, ps). length ps)") auto

definition readFile_callback ::
  "(buffer \<Rightarrow> string) \<Rightarrow> string \<Rightarrow> errno + buffer \<Rightarrow> world \<Rightarrow> world" where
  "readFile_callback toString file r w =
     (case r of
        Inl error \<Rightarrow> msg_reply ''Uh oh! Had trouble opening a todo...'' w
      | Inr data \<Rightarrow> msg_reply (file @ '': '' @ toString data) w)"

definition readFile_issued :: "string \<Rightarrow> world \<Rightarrow> world" where
  "readFile_issued file w = (let dir = path_join DATA_DIR file in issue (ReadFile dir) w)"

definition readFile_completes ::
  "(buffer \<Rightarrow> string) \<Rightarrow> (string \<Rightarrow> errno option) \<Rightarrow> string \<Rightarrow> world \<Rightarrow> world" where
  "readFile_completes toString read_fault file w =
     (let dir = path_join DATA_DIR file
      in readFile_callback toString file (fs_readFile (read_fault dir) dir (disk w)) w)"

definition show_handler ::
  "(buffer \<Rightarrow> string) \<Rightarrow> errno option \<Rightarrow> (string \<Rightarrow> errno option) \<Rightarrow> nat list \<Rightarrow> world \<Rightarrow> world" where
  "show_handler toString readdir_fault read_fault sched w0 =
     (let w = issue (ReadDir DATA_DIR) w0 in
      case fs_readdir readdir_fault DATA_DIR (disk w) of
        Inl err \<Rightarrow> msg_reply ''Oh no... I couldn't look for todos...'' w
      | Inr files \<Rightarrow>
          if length files = 0 then msg_reply ''The list is empty!'' w
          else
            let w1 = foldl (\<lambda>w file. readFile_issued file w) w files
            in foldl (\<lambda>w file. readFile_completes toString read_fault file w) w1
                 (completion_order sched files))"

text \<open>
  The text with which the callback of the read of one file answers, as a function of the
  file system the read runs on; it is used to state what the handler replies.
\<close>

definition reply_line :: "(buffer \<Rightarrow> string) \<Rightarrow> (string \<Rightarrow> errno option) \<Rightarrow> filesystem \<Rightarrow> string \<Rightarrow> string" where
  "reply_line toString read_fault fs file =
     (case fs_readFile (read_fault (path_join DATA_DIR file)) (path_join DATA_DIR file) fs of
        Inl e \<Rightarrow> ''Uh oh! Had trouble opening a todo...''
      | Inr data \<Rightarrow> file @ '': '' @ toString data)"

subsection \<open>The listener of \<open>add ... to my todo list\<close>\<close>

text \<open>
  \<open>ID\<close> is the value that \<open>uuid.v4()\<close> returns, \<open>todo\<close> is the group of the expression
  \<^verbatim>\<open>/add (.*) to my todo list$/i\<close>.
\<close>

definition add_handler :: "string \<Rightarrow> write_failure option \<Rightarrow> string \<Rightarrow> world \<Rightarrow> world" where
  "add_handler ID write_fault todo w0 =
     (let filename = path_join DATA_DIR ID;
          w = issue (WriteFile filename (ascii_encode todo)) w0;
          (error, fs) = fs_writeFile write_fault filename (ascii_encode todo) (disk w);
          w = w\<lparr>disk := fs\<rparr>
      in case error of
           Some e \<Rightarrow> msg_reply ''Oh no... I couldn't write the todo file...'' w
         | None \<Rightarrow> msg_reply (''OK! I added '' @ todo @ '' to the todo list'') w)"

subsection \<open>The listener of \<open>... is done\<close>\<close>

definition remove_handler :: "errno option \<Rightarrow> string \<Rightarrow> world \<Rightarrow> world" where
  "remove_handler unlink_fault id' w0 =
     (let filename = path_join DATA_DIR id';
          w = issue (Unlink filename) w0;
          (error, fs) = fs_unlink unlink_fault filename (disk w);
          w = w\<lparr>disk := fs\<rparr>
      in case error of
           Some e \<Rightarrow> msg_reply (''Couldn't find '' @ id') w
         | None \<Rightarrow> msg_reply (''OK! Removed '' @ id') w)"

text \<open>
  The listener is registered with the regular expression
  \<^verbatim>\<open>/([0-9a-f\-]{36}) is done$/i\<close>. Under the flag \<open>i\<close> a character of the class matches
  in either case, and so does each letter of a literal; \<open>$\<close> is the end of the text.
  \<open>match_here\<close> is one attempt of the expression at the front of a text, and its result is
  the group, \<open>msg.match[1]\<close>; \<open>remove_regex_exec\<close> is the expression as it is written,
  tried at each position from the left.
\<close>

definition hex_digit :: "char \<Rightarrow> bool" where
  "hex_digit c = (c \<in> set ''0123456789abcdefABCDEF'')"

definition id_char :: "char \<Rightarrow> bool" where
  "id_char c = (hex_digit c \<or> c = CHR ''-'')"

definition to_upper :: "char \<Rightarrow> char" where
  "to_upper c =
     (let n = (of_char c :: nat)
      in if (97 \<le> n \<and> n \<le> 122) \<or> (224 \<le> n \<and> n \<le> 254 \<and> n \<noteq> 247)
         then char_of (n - 32) else c)"

definition matches_literal_ci :: "string \<Rightarrow> string \<Rightarrow> bool" where
  "matches_literal_ci lit s = (map to_upper s = map to_upper lit)"

definition match_here :: "string \<Rightarrow> string option" where
  "match_here s =
     (let g = take 36 s
      in if length g = 36 \<and> list_all id_char g \<and> matches_literal_ci '' is done'' (drop 36 s)
         then Some g else None)"

fun remove_regex_exec :: "string \<Rightarrow> string option" where
  "remove_regex_exec [] = match_here []"
| "remove_regex_exec (c # cs) =
     (case match_here (c # cs) of
        Some g \<Rightarrow> Some g
      | None \<Rightarrow> remove_regex_exec cs)"

text \<open>
  \<open>robot.respond\<close> does not match the expression as it is written: it puts the robot's
  name in front of it. With \<open>a\<close> the longer and \<open>b\<close> the shorter of the name and the alias of
  the robot, both taken literally, the text of a message is matched against
  \<^verbatim>\<open>^\s*[@]?(?:a[:,]?|b[:,]?)\s*(?:([0-9a-f\-]{36}) is done$)\<close>, and against
  \<^verbatim>\<open>^\s*[@]?name[:,]?\s*(?:([0-9a-f\-]{36}) is done$)\<close> when the robot has no alias, with the
  flag \<open>i\<close>. Each part of the expression is a function that is given the matcher of what
  follows it; a part that repeats or is optional tries the longer match first and falls
  back to the shorter one.
\<close>

definition is_space :: "char \<Rightarrow> bool" where
  "is_space c = ((of_char c :: nat) \<in> {9, 10, 11, 12, 13, 32, 160})"

fun star_space :: "(string \<Rightarrow> string option) \<Rightarrow> string \<Rightarrow> string option" where
  "star_space k [] = k []"
| "star_space k (c # cs) =
     (if is_space c
      then (case star_space k cs of Some g \<Rightarrow> Some g | None \<Rightarrow> k (c # cs))
      else k (c # cs))"

definition optional_of :: "string \<Rightarrow> (string \<Rightarrow> string option) \<Rightarrow> string \<Rightarrow> string option" where
  "optional_of chars k s =
     (case s of
        [] \<Rightarrow> k []
      | c # cs \<Rightarrow>
          if c \<in> set chars
          then (case k cs of Some g \<Rightarrow> Some g | None \<Rightarrow> k (c # cs))
          else k (c # cs))"

definition literal_ci :: "string \<Rightarrow> (string \<Rightarrow> string option) \<Rightarrow> string \<Rightarrow> string option" where
  "literal_ci lit k s =
     (if matches_literal_ci lit (take (length lit) s) then k (drop (length lit) s) else None)"

fun alternatives :: "string list \<Rightarrow> (string \<Rightarrow> string option) \<Rightarrow> string \<Rightarrow> string option" where
  "alternatives [] k s = None"
| "alternatives (a # as) k s =
     (case literal_ci a (optional_of '':,'' k) s of
        Some g \<Rightarrow> Some g
      | None \<Rightarrow> alternatives as k s)"

definition respond_names :: "string \<Rightarrow> string option \<Rightarrow> string list" where
  "respond_names name alias =
     (case alias of
        None \<Rightarrow> [name]
      | Some al \<Rightarrow> if length name > length al then [name, al] else [al, name])"

definition respond_remove_match :: "string \<Rightarrow> string option \<Rightarrow> string \<Rightarrow> string option" where
  "respond_remove_match name alias text =
     star_space (optional_of ''@''
       (alternatives (respond_names name alias) (star_space match_here))) text"

text \<open>The robot runs the handler on a text that this expression matches, and only then.\<close>

definition robot_respond_remove ::
  "string \<Rightarrow> string option \<Rightarrow> errno option \<Rightarrow> string \<Rightarrow> world \<Rightarrow> world" where
  "robot_respond_remove name alias unlink_fault text w =
     (case respond_remove_match name alias text of
        None \<Rightarrow> w
      | Some id' \<Rightarrow> remove_handler unlink_fault id' w)"

text \<open>
  The shape the specification gives to an id: 8, 4, 4, 4 and 12 hexadecimal digits,
  separated by hyphens.
\<close>

definition uuid_template :: string where
  "uuid_template = ''xxxxxxxx-xxxx-xxxx-xxxx-xxxxxxxxxxxx''"

definition uuid_shape :: "string \<Rightarrow> bool" where
  "uuid_shape s =
     list_all2 (\<lambda>t c. if t = CHR ''-'' then c = CHR ''-'' else hex_digit c) uuid_template s"

subsection \<open>Example states\<close>

text \<open>
  Concrete inputs on which the theorems below are instantiated: a decoder for buffers of
  ASCII bytes, a few states of the world, an id of the shape of a UUID and a string of 36
  characters of the class that has not that shape.
\<close>

definition demo_toString :: "buffer \<Rightarrow> string" where
  "demo_toString data = map (\<lambda>b. char_of (unat b)) data"

definition demo_world :: world where
  "demo_world =
     \<lparr>disk = [(''todos/a'', ascii_encode ''buy milk''), (''notes.txt'', ascii_encode ''x''),
              (''todos/b'', ascii_encode ''call bob''), (''todos/c'', ascii_encode ''pay rent'')],
      replies = [], calls = []\<rparr>"

definition demo_fault :: "string \<Rightarrow> errno option" where
  "demo_fault p = (if p = ''todos/b'' then Some EIO else None)"

definition demo_id :: string where
  "demo_id = ''123e4567-e89b-12d3-a456-426614174000''"

definition odd_id :: string where
  "odd_id = ''----deadbeefdeadbeefdeadbeefdeadbeef''"

definition empty_world :: world where
  "empty_world = \<lparr>disk = [], replies = [], calls = []\<rparr>"

definition demo_path :: string where
  "demo_path = ''todos/123e4567-e89b-12d3-a456-426614174000''"

definition stored_world :: world where
  "stored_world =
     \<lparr>disk = [(''notes.txt'', ascii_encode ''x''), (demo_path, ascii_encode ''buy milk'')],
      replies = [], calls = []\<rparr>"

definition notes_world :: world where
  "notes_world = \<lparr>disk = [(''notes.txt'', ascii_encode ''x'')], replies = [], calls = []\<rparr>"

section \<open>Properties of the model\<close>

subsection \<open>State selectors\<close>

lemma msg_reply_sel [simp]:
  "replies (msg_reply t w) = replies w @ [t]"
  "disk (msg_reply t w) = disk w"
  "calls (msg_reply t w) = calls w"
  by (simp_all add: msg_reply_def)

lemma issue_sel [simp]:
  "calls (issue c w) = calls w @ [c]"
  "disk (issue c w) = disk w"
  "replies (issue c w) = replies w"
  by (simp_all add: issue_def)

lemma remove_nth_mset:
  "i < length xs \<Longrightarrow> add_mset (xs ! i) (mset (take i xs @ drop (Suc i) xs)) = mset xs"
proof -
  assume "i < length xs"
  then have "xs = take i xs @ xs ! i # drop (Suc i) xs"
    by (rule id_take_nth_drop)
  then have "mset xs = mset (take i xs @ xs ! i # drop (Suc i) xs)"
    by simp
  then show ?thesis by simp
qed

lemma completion_order_mset: "mset (completion_order sched xs) = mset xs"
proof (induction sched xs rule: completion_order.induct)
  case (3 n sched p ps)
  let ?xs = "p # ps"
  let ?i = "n mod length ?xs"
  have i: "?i < length ?xs" by simp
  have "mset (completion_order (n # sched) ?xs)
      = add_mset (?xs ! ?i) (mset (completion_order sched (take ?i ?xs @ drop (Suc ?i) ?xs)))"
    by (simp add: Let_def del: nth_Cons_Suc take_Suc_Cons drop_Suc_Cons)
  also have "\<dots> = add_mset (?xs ! ?i) (mset (take ?i ?xs @ drop (Suc ?i) ?xs))"
    using "3.IH" [OF refl] by simp
  also have "\<dots> = mset ?xs" using i by (rule remove_nth_mset)
  finally show ?case .
qed simp_all

lemma completion_order_length: "length (completion_order sched xs) = length xs"
  using completion_order_mset [of sched xs] by (metis size_mset)

lemma readFile_completes_sel [simp]:
  "replies (readFile_completes toString read_fault file w)
     = replies w @ [reply_line toString read_fault (disk w) file]"
  "disk (readFile_completes toString read_fault file w) = disk w"
  "calls (readFile_completes toString read_fault file w) = calls w"
  by (simp_all add: readFile_completes_def readFile_callback_def reply_line_def Let_def split: sum.splits)

lemma readFile_issued_sel [simp]:
  "calls (readFile_issued file w) = calls w @ [ReadFile (path_join DATA_DIR file)]"
  "disk (readFile_issued file w) = disk w"
  "replies (readFile_issued file w) = replies w"
  by (simp_all add: readFile_issued_def)

lemma callbacks_fold:
  "replies (foldl (\<lambda>w file. readFile_completes toString read_fault file w) w xs)
     = replies w @ map (reply_line toString read_fault (disk w)) xs
   \<and> disk (foldl (\<lambda>w file. readFile_completes toString read_fault file w) w xs) = disk w
   \<and> calls (foldl (\<lambda>w file. readFile_completes toString read_fault file w) w xs) = calls w"
  by (induction xs arbitrary: w) simp_all

lemma issues_fold:
  "calls (foldl (\<lambda>w file. readFile_issued file w) w xs)
     = calls w @ map (\<lambda>file. ReadFile (path_join DATA_DIR file)) xs
   \<and> disk (foldl (\<lambda>w file. readFile_issued file w) w xs) = disk w
   \<and> replies (foldl (\<lambda>w file. readFile_issued file w) w xs) = replies w"
  by (induction xs arbitrary: w) simp_all

lemma show_handler_files:
  assumes "fs_readdir readdir_fault DATA_DIR (disk w) = Inr files" and "files \<noteq> []"
  shows "replies (show_handler toString readdir_fault read_fault sched w)
           = replies w @ map (reply_line toString read_fault (disk w)) (completion_order sched files)"
    and "calls (show_handler toString readdir_fault read_fault sched w)
           = calls w @ ReadDir DATA_DIR # map (\<lambda>file. ReadFile (path_join DATA_DIR file)) files"
    and "disk (show_handler toString readdir_fault read_fault sched w) = disk w"
  using assms by (simp_all add: show_handler_def Let_def callbacks_fold issues_fold)

lemma show_handler_readdir_fails:
  assumes "fs_readdir readdir_fault DATA_DIR (disk w) = Inl e"
  shows "replies (show_handler toString readdir_fault read_fault sched w)
           = replies w @ [''Oh no... I couldn't look for todos...'']"
    and "calls (show_handler toString readdir_fault read_fault sched w) = calls w @ [ReadDir DATA_DIR]"
    and "disk (show_handler toString readdir_fault read_fault sched w) = disk w"
  using assms by (simp_all add: show_handler_def Let_def)

lemma show_handler_empty:
  assumes "fs_readdir readdir_fault DATA_DIR (disk w) = Inr []"
  shows "replies (show_handler toString readdir_fault read_fault sched w)
           = replies w @ [''The list is empty!'']"
    and "calls (show_handler toString readdir_fault read_fault sched w) = calls w @ [ReadDir DATA_DIR]"
    and "disk (show_handler toString readdir_fault read_fault sched w) = disk w"
  using assms by (simp_all add: show_handler_def Let_def)

lemma uh_oh_no_colon: "CHR '':'' \<notin> set ''Uh oh! Had trouble opening a todo...''"
  by simp

lemma reply_line_fail:
  "(reply_line toString read_fault fs file = ''Uh oh! Had trouble opening a todo...'')
   = isl (fs_readFile (read_fault (path_join DATA_DIR file)) (path_join DATA_DIR file) fs)"
proof (cases "fs_readFile (read_fault (path_join DATA_DIR file)) (path_join DATA_DIR file) fs")
  case (Inl e)
  then show ?thesis by (simp add: reply_line_def)
next
  case (Inr data)
  have "CHR '':'' \<in> set (file @ '': '' @ toString data)" by simp
  then have "file @ '': '' @ toString data \<noteq> ''Uh oh! Had trouble opening a todo...''"
    using uh_oh_no_colon by metis
  with Inr show ?thesis by (simp add: reply_line_def)
qed

subsection \<open>Paths and the id expression\<close>

lemma split_path_plain: "CHR ''/'' \<notin> set s \<Longrightarrow> split_path s = [s]"
  by (induction s) auto

lemma split_path_sep:
  "CHR ''/'' \<notin> set a \<Longrightarrow> split_path (a @ CHR ''/'' # b) = a # split_path b"
  by (induction a) auto

lemma path_join_child:
  assumes "name \<noteq> []" and "CHR ''/'' \<notin> set name" and "name \<noteq> ''.''" and "name \<noteq> ''..''"
  shows "path_join DATA_DIR name = DATA_DIR @ ''/'' @ name"
proof -
  have sp: "split_path (''todos'' @ CHR ''/'' # name) = [''todos'', name]"
    using assms(2) by (subst split_path_sep) (simp_all add: split_path_plain)
  have l: "last name \<noteq> CHR ''/''"
    using assms(1,2) last_in_set by metis
  show ?thesis
    using assms(1,3,4) sp l by (simp add: path_join_def DATA_DIR_def normalize_def)
qed

lemma child_of_child:
  assumes "name \<noteq> []" and "CHR ''/'' \<notin> set name"
  shows "child_of dir (dir @ ''/'' @ name) = Some name"
  using assms by (simp add: child_of_def)

lemma id_char_plain: "id_char c \<Longrightarrow> c \<noteq> CHR ''/'' \<and> c \<noteq> CHR ''.''"
  by (auto simp add: id_char_def hex_digit_def)

lemma id_plain:
  assumes "length g = 36" and "list_all id_char g"
  shows "g \<noteq> [] \<and> CHR ''/'' \<notin> set g \<and> CHR ''.'' \<notin> set g \<and> g \<noteq> ''.'' \<and> g \<noteq> ''..''"
proof -
  have "\<forall>c\<in>set g. c \<noteq> CHR ''/'' \<and> c \<noteq> CHR ''.''"
    using assms(2) id_char_plain by (auto simp add: list_all_iff)
  moreover have "g \<noteq> []" "g \<noteq> ''.''" "g \<noteq> ''..''" using assms(1) by auto
  ultimately show ?thesis by blast
qed

lemma literal_length: "matches_literal_ci lit s \<Longrightarrow> length s = length lit"
  unfolding matches_literal_ci_def by (metis length_map)

lemma match_here_iff:
  "(match_here s = Some g) =
   (length s = 44 \<and> g = take 36 s \<and> list_all id_char g \<and> matches_literal_ci '' is done'' (drop 36 s))"
proof -
  have "matches_literal_ci '' is done'' (drop 36 s) \<Longrightarrow> length s = 44 \<or> length s < 36"
    using literal_length [of "'' is done''" "drop 36 s"] by auto
  then show ?thesis
    by (auto simp add: match_here_def Let_def)
qed

lemma remove_regex_exec_iff:
  "(remove_regex_exec s = Some g) =
   (44 \<le> length s \<and> match_here (drop (length s - 44) s) = Some g)"
proof (induction s)
  case Nil
  show ?case by (simp add: match_here_iff)
next
  case (Cons c cs)
  show ?case
  proof (cases "match_here (c # cs)")
    case (Some g')
    then have "length (c # cs) = 44" by (simp add: match_here_iff)
    with Some show ?thesis by simp
  next
    case None
    then have ne: "length (c # cs) \<noteq> 44 \<or> match_here (drop 0 (c # cs)) \<noteq> Some g" by simp
    show ?thesis
    proof (cases "44 \<le> length cs")
      case True
      then have "Suc (length cs) - 44 = Suc (length cs - 44)" by simp
      with None True Cons.IH show ?thesis by simp
    next
      case False
      with None Cons.IH show ?thesis
        by (cases "length cs = 43") simp_all
    qed
  qed
qed

lemma uuid_shape_id:
  assumes "uuid_shape g"
  shows "length g = 36 \<and> list_all id_char g"
proof -
  have a: "list_all2 (\<lambda>t c. if t = CHR ''-'' then c = CHR ''-'' else hex_digit c) uuid_template g"
    using assms by (simp add: uuid_shape_def)
  have "length g = length uuid_template" using a by (simp add: list_all2_lengthD)
  moreover have "list_all id_char g"
    using a by (induction rule: list_all2_induct) (auto simp add: id_char_def split: if_splits)
  ultimately show ?thesis by (simp add: uuid_template_def)
qed

lemma to_upper_literal: "matches_literal_ci lit lit"
  by (simp add: matches_literal_ci_def)

lemma regex_finds_id:
  assumes "length g = 36" and "list_all id_char g" and "matches_literal_ci '' is done'' suffix"
  shows "remove_regex_exec (pre @ g @ suffix) = Some g"
proof -
  have "length suffix = 8" using literal_length [OF assms(3)] by simp
  then show ?thesis using assms by (simp add: remove_regex_exec_iff match_here_iff)
qed

subsection \<open>The handlers\<close>

lemma update_fresh: "map_of al k = None \<Longrightarrow> AList.update k v al = al @ [(k, v)]"
  by (induction al) (auto split: if_splits)

lemma fresh_not_key: "map_of al k = None \<Longrightarrow> k \<notin> fst ` set al"
  by (simp add: map_of_eq_None_iff)

lemma add_handler_sel:
  "calls (add_handler ID write_fault todo w)
     = calls w @ [WriteFile (path_join DATA_DIR ID) (ascii_encode todo)]"
  "disk (add_handler ID write_fault todo w)
     = snd (fs_writeFile write_fault (path_join DATA_DIR ID) (ascii_encode todo) (disk w))"
  "replies (add_handler ID write_fault todo w)
     = replies w @ [case fst (fs_writeFile write_fault (path_join DATA_DIR ID) (ascii_encode todo) (disk w)) of
                      Some e \<Rightarrow> ''Oh no... I couldn't write the todo file...''
                    | None \<Rightarrow> ''OK! I added '' @ todo @ '' to the todo list'']"
  by (simp_all add: add_handler_def Let_def split: prod.splits option.splits)

lemma remove_handler_sel:
  "calls (remove_handler unlink_fault g w) = calls w @ [Unlink (path_join DATA_DIR g)]"
  "disk (remove_handler unlink_fault g w)
     = snd (fs_unlink unlink_fault (path_join DATA_DIR g) (disk w))"
  "replies (remove_handler unlink_fault g w)
     = replies w @ [case fst (fs_unlink unlink_fault (path_join DATA_DIR g) (disk w)) of
                      Some e \<Rightarrow> ''Couldn't find '' @ g
                    | None \<Rightarrow> ''OK! Removed '' @ g]"
  by (simp_all add: remove_handler_def Let_def split: prod.splits option.splits)

lemma fs_unlink_cases:
  "fs_unlink fault p fs =
     (if fault \<noteq> None \<or> map_of fs p = None
      then (Some (case fault of Some e \<Rightarrow> e | None \<Rightarrow> ENOENT), fs)
      else (None, AList.delete p fs))"
  by (auto simp add: fs_unlink_def split: option.splits)

lemma fs_writeFile_cases:
  "fs_writeFile None p data fs = (None, AList.update p data fs)"
  "fs_writeFile (Some (OpenFails e)) p data fs = (Some e, fs)"
  "fs_writeFile (Some (WriteFails e n)) p data fs = (Some e, AList.update p (take n data) fs)"
  by (simp_all add: fs_writeFile_def)

lemma fs_writeFile_fails: "(fst (fs_writeFile fault p data fs) = None) = (fault = None)"
  by (simp add: fs_writeFile_def split: option.splits write_failure.splits)

lemma fs_writeFile_disk:
  "snd (fs_writeFile fault p data fs) = fs
   \<or> (\<exists>d. snd (fs_writeFile fault p data fs) = AList.update p d fs)"
  by (auto simp add: fs_writeFile_def split: option.splits write_failure.splits)

lemma dispatched_id:
  assumes "remove_regex_exec text = Some g"
  shows "length g = 36" and "list_all id_char g"
proof -
  from assms have m: "44 \<le> length text" "match_here (drop (length text - 44) text) = Some g"
    by (simp_all add: remove_regex_exec_iff)
  from m(2) show "list_all id_char g" unfolding match_here_iff by blast
  from m(2) have "length (drop (length text - 44) text) = 44" "g = take 36 (drop (length text - 44) text)"
    unfolding match_here_iff by blast+
  then show "length g = 36" by simp
qed

lemma dispatched_path:
  assumes "remove_regex_exec text = Some g"
  shows "path_join DATA_DIR g = DATA_DIR @ ''/'' @ g"
    and "child_of DATA_DIR (DATA_DIR @ ''/'' @ g) = Some g"
proof -
  have p: "g \<noteq> []" "CHR ''/'' \<notin> set g" "g \<noteq> ''.''" "g \<noteq> ''..''"
    using id_plain [OF dispatched_id [OF assms]] by blast+
  show "path_join DATA_DIR g = DATA_DIR @ ''/'' @ g" using p by (rule path_join_child)
  show "child_of DATA_DIR (DATA_DIR @ ''/'' @ g) = Some g" using p(1,2) by (rule child_of_child)
qed

lemma outside_filter_delete:
  assumes "child_of dir p \<noteq> None"
  shows "filter (\<lambda>(q, data). child_of dir q = None) (AList.delete p fs)
       = filter (\<lambda>(q, data). child_of dir q = None) fs"
  using assms by (induction fs) (auto simp add: AList.delete_eq)

lemma of_char_byte: "unat (of_char c :: 8 word) = of_char c"
proof -
  have "unat (of_nat (of_char c) :: 8 word) = (of_char c :: nat) mod 2 ^ LENGTH(8)"
    by (rule unat_of_nat)
  moreover have "(of_nat (of_char c) :: 8 word) = of_char c"
    by (rule of_nat_of_char)
  moreover have "(of_char c :: nat) < 256" by simp
  ultimately show ?thesis by simp
qed

lemma ascii_encode_bytes: "map unat (ascii_encode s) = map of_char s"
  by (simp add: ascii_encode_def of_char_byte)

lemma readdir_append:
  "fs_readdir None dir (fs @ [(p, data)])
     = Inr (projr (fs_readdir None dir fs) @ (case child_of dir p of None \<Rightarrow> [] | Some name \<Rightarrow> [name]))"
  by (simp add: fs_readdir_def List.map_filter_def split: option.splits)

subsection \<open>Facts about the example states, and further facts\<close>

lemma demo_readdir: "fs_readdir None DATA_DIR (disk demo_world) = Inr [''a'', ''b'', ''c'']"
  by (simp add: fs_readdir_def demo_world_def DATA_DIR_def child_of_def List.map_filter_def)

lemma demo_paths:
  "path_join DATA_DIR ''a'' = ''todos/a''" "path_join DATA_DIR ''b'' = ''todos/b''"
  "path_join DATA_DIR ''c'' = ''todos/c''"
  "path_join ''todos'' ''a'' = ''todos/a''" "path_join ''todos'' ''b'' = ''todos/b''"
  "path_join ''todos'' ''c'' = ''todos/c''"
  by (simp_all add: path_join_def normalize_def DATA_DIR_def)

lemma demo_run:
  "replies (show_handler demo_toString None demo_fault [2, 0] demo_world)
     = [''c: pay rent'', ''a: buy milk'', ''Uh oh! Had trouble opening a todo...'']"
  by code_simp

lemma demo_id_shape: "uuid_shape demo_id"
  by (simp add: uuid_shape_def uuid_template_def demo_id_def hex_digit_def)

lemma odd_id_not_shape: "\<not> uuid_shape odd_id"
  by (simp add: uuid_shape_def uuid_template_def odd_id_def hex_digit_def)

lemma odd_id_dispatched: "remove_regex_exec (odd_id @ '' is done'') = Some odd_id"
  by (rule regex_finds_id [of odd_id "'' is done''" "[]", simplified])
     (simp_all add: odd_id_def id_char_def hex_digit_def to_upper_literal)

lemma demo_dispatched: "remove_regex_exec (demo_id @ '' is done'') = Some demo_id"
  using regex_finds_id [of demo_id "'' is done''" "[]"] uuid_shape_id [OF demo_id_shape]
  by (simp add: to_upper_literal)

lemma demo_path_join: "path_join DATA_DIR demo_id = demo_path"
  using dispatched_path(1) [OF demo_dispatched] by (simp add: DATA_DIR_def demo_id_def demo_path_def)

lemma demo_path_eq: "DATA_DIR @ CHR ''/'' # demo_id = demo_path"
  by (simp add: DATA_DIR_def demo_id_def demo_path_def)

lemma show_handler_disk: "disk (show_handler toString readdir_fault read_fault sched w) = disk w"
proof (cases "fs_readdir readdir_fault DATA_DIR (disk w)")
  case (Inl e)
  then show ?thesis by (rule show_handler_readdir_fails(3))
next
  case (Inr files)
  show ?thesis
  proof (cases "files = []")
    case True
    with Inr show ?thesis by (simp add: show_handler_empty(3))
  next
    case False
    with Inr show ?thesis by (rule show_handler_files(3))
  qed
qed

lemma readdir_member:
  assumes "(p, data) \<in> set fs" and "child_of dir p = Some name"
  shows "name \<in> set (projr (fs_readdir None dir fs))"
  using assms by (force simp add: fs_readdir_def List.map_filter_def)

lemma uuid_path:
  assumes "uuid_shape ID"
  shows "path_join DATA_DIR ID = DATA_DIR @ ''/'' @ ID"
    and "child_of DATA_DIR (DATA_DIR @ ''/'' @ ID) = Some ID"
    and "remove_regex_exec (ID @ '' is done'') = Some ID"
proof -
  have i: "length ID = 36" "list_all id_char ID" using uuid_shape_id [OF assms] by blast+
  show e: "remove_regex_exec (ID @ '' is done'') = Some ID"
    using regex_finds_id [OF i to_upper_literal, of "[]"] by simp
  show "path_join DATA_DIR ID = DATA_DIR @ ''/'' @ ID" using e by (rule dispatched_path(1))
  show "child_of DATA_DIR (DATA_DIR @ ''/'' @ ID) = Some ID" using e by (rule dispatched_path(2))
qed

lemma completion_order_any:
  "mset ys = mset xs \<Longrightarrow> \<exists>sched. completion_order sched xs = ys"
proof (induction ys arbitrary: xs)
  case Nil
  then show ?case by simp
next
  case (Cons y ys)
  then have "y \<in> set xs" by (metis list.set_intros(1) set_mset_mset)
  then obtain i where i: "i < length xs" "xs ! i = y" by (auto simp add: in_set_conv_nth)
  then obtain p ps where xs: "xs = p # ps" by (cases xs) auto
  let ?rest = "take i xs @ drop (Suc i) xs"
  have "add_mset y (mset ?rest) = mset xs" using i remove_nth_mset by metis
  with Cons.prems have "add_mset y (mset ys) = add_mset y (mset ?rest)" by simp
  then have "mset ys = mset ?rest" by (simp only: add_mset_add_mset_same_iff)
  then obtain sched where s: "completion_order sched ?rest = ys" using Cons.IH by blast
  have "i mod length (p # ps) = i" using i(1) xs by simp
  then have "completion_order (i # sched) (p # ps) = ((p # ps) ! i) # completion_order sched (take i (p # ps) @ drop (Suc i) (p # ps))"
    by (simp add: Let_def del: nth_Cons_Suc take_Suc_Cons drop_Suc_Cons)
  with s i(2) xs have "completion_order (i # sched) xs = y # ys" by simp
  then show ?case by blast
qed

subsection \<open>The expression of \<open>robot.respond\<close>\<close>

lemma star_space_suffix:
  "star_space k s = Some g \<Longrightarrow> \<exists>pre t. s = pre @ t \<and> k t = Some g"
proof (induction s)
  case Nil
  then show ?case by simp
next
  case (Cons c cs)
  show ?case
  proof (cases "is_space c \<and> star_space k cs = Some g")
    case True
    then obtain pre t where "cs = pre @ t" "k t = Some g" using Cons.IH by blast
    then have "c # cs = (c # pre) @ t \<and> k t = Some g" by simp
    then show ?thesis by blast
  next
    case False
    with Cons.prems have "k (c # cs) = Some g"
      by (auto split: if_splits option.splits)
    then have "c # cs = [] @ (c # cs) \<and> k (c # cs) = Some g" by simp
    then show ?thesis by blast
  qed
qed

lemma optional_of_suffix:
  assumes "optional_of chars k s = Some g"
  shows "\<exists>pre t. s = pre @ t \<and> k t = Some g"
proof (cases s)
  case Nil
  with assms have "s = [] @ [] \<and> k [] = Some g" by (simp add: optional_of_def)
  then show ?thesis by blast
next
  case (Cons c cs)
  with assms have "k cs = Some g \<or> k (c # cs) = Some g"
    by (auto simp add: optional_of_def split: if_splits option.splits)
  then show ?thesis
  proof
    assume "k cs = Some g"
    with Cons have "s = [c] @ cs \<and> k cs = Some g" by simp
    then show ?thesis by blast
  next
    assume "k (c # cs) = Some g"
    with Cons have "s = [] @ s \<and> k s = Some g" by simp
    then show ?thesis by blast
  qed
qed

lemma literal_ci_suffix:
  assumes "literal_ci lit k s = Some g"
  shows "\<exists>pre t. s = pre @ t \<and> k t = Some g"
proof -
  from assms have "k (drop (length lit) s) = Some g"
    by (simp add: literal_ci_def split: if_splits)
  then have "s = take (length lit) s @ drop (length lit) s \<and> k (drop (length lit) s) = Some g"
    by simp
  then show ?thesis by blast
qed

lemma alternatives_suffix:
  "alternatives names k s = Some g \<Longrightarrow> \<exists>pre t. s = pre @ t \<and> k t = Some g"
proof (induction names)
  case Nil
  then show ?case by simp
next
  case (Cons a names)
  show ?case
  proof (cases "literal_ci a (optional_of '':,'' k) s")
    case None
    with Cons show ?thesis by simp
  next
    case (Some g')
    with Cons.prems have "literal_ci a (optional_of '':,'' k) s = Some g" by simp
    then obtain p1 t1 where 1: "s = p1 @ t1" "optional_of '':,'' k t1 = Some g"
      using literal_ci_suffix by blast
    then obtain p2 t2 where 2: "t1 = p2 @ t2" "k t2 = Some g"
      using optional_of_suffix by blast
    from 1 2 have "s = (p1 @ p2) @ t2 \<and> k t2 = Some g" by simp
    then show ?thesis by blast
  qed
qed

lemma respond_match_suffix:
  assumes "respond_remove_match name alias text = Some g"
  shows "\<exists>pre t. text = pre @ t \<and> match_here t = Some g"
proof -
  let ?k3 = "star_space match_here"
  let ?k2 = "alternatives (respond_names name alias) ?k3"
  let ?k1 = "optional_of ''@'' ?k2"
  from assms have "star_space ?k1 text = Some g" by (simp add: respond_remove_match_def)
  then obtain p1 t1 where 1: "text = p1 @ t1" "?k1 t1 = Some g"
    using star_space_suffix by blast
  then obtain p2 t2 where 2: "t1 = p2 @ t2" "?k2 t2 = Some g"
    using optional_of_suffix by blast
  then obtain p3 t3 where 3: "t2 = p3 @ t3" "?k3 t3 = Some g"
    using alternatives_suffix by blast
  then obtain p4 t4 where 4: "t3 = p4 @ t4" "match_here t4 = Some g"
    using star_space_suffix by blast
  from 1 2 3 4 have "text = (p1 @ p2 @ p3 @ p4) @ t4 \<and> match_here t4 = Some g" by simp
  then show ?thesis by blast
qed

lemma match_here_exec:
  assumes "match_here t = Some g"
  shows "remove_regex_exec (pre @ t) = Some g"
proof -
  from assms have "length t = 44" unfolding match_here_iff by blast
  with assms show ?thesis by (simp add: remove_regex_exec_iff)
qed

lemma respond_implies_exec:
  assumes "respond_remove_match name alias text = Some g"
  shows "remove_regex_exec text = Some g"
  using respond_match_suffix [OF assms] match_here_exec by blast

lemma star_space_some: "k s \<noteq> None \<Longrightarrow> star_space k s \<noteq> None"
  by (cases s) (auto split: option.splits)

lemma star_space_skip: "is_space c \<Longrightarrow> star_space k cs \<noteq> None \<Longrightarrow> star_space k (c # cs) \<noteq> None"
  by (auto split: option.splits)

lemma optional_of_some: "k s \<noteq> None \<Longrightarrow> optional_of chars k s \<noteq> None"
  by (cases s) (auto simp add: optional_of_def split: option.splits)

lemma literal_ci_self: "literal_ci a k (a @ rest) = k rest"
  by (simp add: literal_ci_def matches_literal_ci_def)

lemma alternatives_some:
  "a \<in> set names \<Longrightarrow> literal_ci a (optional_of '':,'' k) s \<noteq> None \<Longrightarrow> alternatives names k s \<noteq> None"
  by (induction names) (auto split: option.splits)

lemma name_in_respond_names: "name \<in> set (respond_names name alias)"
  by (simp add: respond_names_def split: option.splits)

lemma respond_addressed:
  assumes "length g = 36" and "list_all id_char g" and "matches_literal_ci '' is done'' suffix"
  shows "respond_remove_match name alias (name @ '' '' @ g @ suffix) = Some g"
proof -
  let ?k3 = "star_space match_here"
  let ?k2 = "alternatives (respond_names name alias) ?k3"
  let ?k1 = "optional_of ''@'' ?k2"
  let ?text = "name @ '' '' @ g @ suffix"
  have "length suffix = 8" using literal_length [OF assms(3)] by simp
  with assms have "match_here (g @ suffix) = Some g" by (simp add: match_here_iff)
  then have "?k3 (g @ suffix) \<noteq> None" using star_space_some by force
  then have "?k3 (CHR '' '' # g @ suffix) \<noteq> None"
    by (intro star_space_skip) (simp_all add: is_space_def)
  then have "optional_of '':,'' ?k3 ('' '' @ g @ suffix) \<noteq> None"
    using optional_of_some by force
  then have "literal_ci name (optional_of '':,'' ?k3) ?text \<noteq> None"
    by (simp add: literal_ci_self)
  then have "?k2 ?text \<noteq> None"
    using name_in_respond_names alternatives_some by blast
  then have "?k1 ?text \<noteq> None" by (rule optional_of_some)
  then have "star_space ?k1 ?text \<noteq> None" by (rule star_space_some)
  then obtain g' where g': "respond_remove_match name alias ?text = Some g'"
    by (auto simp add: respond_remove_match_def)
  have "remove_regex_exec ?text = Some g"
    using regex_finds_id [OF assms, of "name @ '' ''"] by simp
  with respond_implies_exec [OF g'] have "g' = g" by simp
  with g' show ?thesis by simp
qed

lemma robot_respond_remove_cases:
  "robot_respond_remove name alias unlink_fault text w = w
   \<or> (\<exists>g. remove_regex_exec text = Some g
          \<and> robot_respond_remove name alias unlink_fault text w = remove_handler unlink_fault g w)"
proof (cases "respond_remove_match name alias text")
  case None
  then show ?thesis by (simp add: robot_respond_remove_def)
next
  case (Some g)
  then have "remove_regex_exec text = Some g" by (rule respond_implies_exec)
  with Some show ?thesis by (simp add: robot_respond_remove_def)
qed

lemma remove_regex_exec_tail:
  "(remove_regex_exec text = Some g) =
      (44 \<le> length text
       \<and> g = take 36 (drop (length text - 44) text)
       \<and> list_all id_char g
       \<and> matches_literal_ci '' is done'' (drop (length text - 8) text))"
proof (cases "44 \<le> length text")
  case True
  then have "36 + (length text - 44) = length text - 8" by simp
  with True show ?thesis
    by (auto simp add: remove_regex_exec_iff match_here_iff)
next
  case False
  then show ?thesis by (simp add: remove_regex_exec_iff)
qed

lemma remove_handler_outside:
  assumes "remove_regex_exec text = Some g"
  shows "filter (\<lambda>(q, data). child_of DATA_DIR q = None) (disk (remove_handler unlink_fault g w))
       = filter (\<lambda>(q, data). child_of DATA_DIR q = None) (disk w)"
proof -
  let ?p = "DATA_DIR @ ''/'' @ g"
  have p: "path_join DATA_DIR g = ?p" using assms by (rule dispatched_path(1))
  have "child_of DATA_DIR ?p = Some g" using assms by (rule dispatched_path(2))
  then have "child_of DATA_DIR ?p \<noteq> None" by simp
  then have "filter (\<lambda>(q, data). child_of DATA_DIR q = None) (AList.delete ?p (disk w))
       = filter (\<lambda>(q, data). child_of DATA_DIR q = None) (disk w)"
    by (rule outside_filter_delete)
  then show ?thesis
    unfolding remove_handler_sel p fs_unlink_cases by simp
qed

lemma demo_addressed:
  "respond_remove_match name alias (name @ '' '' @ demo_id @ '' is done'') = Some demo_id"
  using respond_addressed [of demo_id "'' is done''" name "alias"] uuid_shape_id [OF demo_id_shape]
  by (simp add: to_upper_literal)

section \<open>The claims\<close>

subsection \<open>Listing\<close>

text \<open>
  Claim C3. When the enumeration of the directory fails, the list handler answers with
  the one reply \<open>Oh no... I couldn't look for todos...\<close> and nothing else: the only call
  it has issued is the \<open>readdir\<close> itself, so no file is read and neither an item line
  nor a message about a file is sent.
\<close>

theorem list_readdir_failure:
  assumes "fs_readdir readdir_fault DATA_DIR (disk w) = Inl e"
  shows "replies (show_handler toString readdir_fault read_fault sched w)
           = replies w @ [''Oh no... I couldn't look for todos...'']
       \<and> calls (show_handler toString readdir_fault read_fault sched w) = calls w @ [ReadDir DATA_DIR]
       \<and> disk (show_handler toString readdir_fault read_fault sched w) = disk w"
  using assms by (simp add: show_handler_readdir_fails)

theorem list_readdir_failure_witness:
  "fs_readdir (Some EACCES) DATA_DIR [(''todos/a'', [104, 105])] = Inl EACCES
   \<and> replies (show_handler (map (\<lambda>b. char_of (unat b))) (Some EACCES) (\<lambda>p. None) []
        \<lparr>disk = [(''todos/a'', [104, 105])], replies = [], calls = []\<rparr>)
       = [''Oh no... I couldn't look for todos...'']
   \<and> calls (show_handler (map (\<lambda>b. char_of (unat b))) (Some EACCES) (\<lambda>p. None) []
        \<lparr>disk = [(''todos/a'', [104, 105])], replies = [], calls = []\<rparr>)
       = [ReadDir ''todos'']"
proof -
  have h: "fs_readdir (Some EACCES) DATA_DIR (disk \<lparr>disk = [(''todos/a'', [104, 105])], replies = [], calls = []\<rparr>) = Inl EACCES"
    by (simp add: fs_readdir_def)
  show ?thesis
    using list_readdir_failure [OF h, of "map (\<lambda>b. char_of (unat b))" "\<lambda>p. None" "[]"]
    by (simp add: fs_readdir_def DATA_DIR_def)
qed

text \<open>
  Claim C7. When the enumeration succeeds and finds no entry, the list handler answers
  with the one reply \<open>The list is empty!\<close>; it issues no call besides the \<open>readdir\<close>, so
  it reads no file and sends no item line.
\<close>

theorem list_empty_directory:
  assumes "fs_readdir readdir_fault DATA_DIR (disk w) = Inr []"
  shows "replies (show_handler toString readdir_fault read_fault sched w)
           = replies w @ [''The list is empty!'']
       \<and> calls (show_handler toString readdir_fault read_fault sched w) = calls w @ [ReadDir DATA_DIR]
       \<and> disk (show_handler toString readdir_fault read_fault sched w) = disk w"
  using assms by (simp add: show_handler_empty)

theorem list_empty_directory_witness:
  "fs_readdir None DATA_DIR [(''notes.txt'', [104, 105])] = Inr []
   \<and> replies (show_handler (map (\<lambda>b. char_of (unat b))) None (\<lambda>p. None) [1]
        \<lparr>disk = [(''notes.txt'', [104, 105])], replies = [], calls = []\<rparr>)
       = [''The list is empty!'']
   \<and> calls (show_handler (map (\<lambda>b. char_of (unat b))) None (\<lambda>p. None) [1]
        \<lparr>disk = [(''notes.txt'', [104, 105])], replies = [], calls = []\<rparr>)
       = [ReadDir ''todos'']"
proof -
  have h: "fs_readdir None DATA_DIR (disk \<lparr>disk = [(''notes.txt'', [104, 105])], replies = [], calls = []\<rparr>) = Inr []"
    by (simp add: fs_readdir_def DATA_DIR_def child_of_def List.map_filter_def)
  show ?thesis
    using h list_empty_directory [OF h, of "map (\<lambda>b. char_of (unat b))" "\<lambda>p. None" "[1]"]
    by (simp add: DATA_DIR_def)
qed

text \<open>
  Claim C4. Over a directory with entries, whatever the order in which the reads
  complete: a read is issued for every file, every file gets exactly one reply, the
  replies \<open>Uh oh! Had trouble opening a todo...\<close> are as many as the files whose read
  fails, and the replies are, up to their order, those that each file's own read gives,
  so that a read that fails changes the reply of no other file.
\<close>

theorem list_reads_independent:
  assumes "fs_readdir readdir_fault DATA_DIR (disk w) = Inr files" and "files \<noteq> []"
  shows "calls (show_handler toString readdir_fault read_fault sched w)
           = calls w @ ReadDir DATA_DIR # map (\<lambda>file. ReadFile (path_join DATA_DIR file)) files
       \<and> take (length (replies w)) (replies (show_handler toString readdir_fault read_fault sched w))
           = replies w
       \<and> length (drop (length (replies w)) (replies (show_handler toString readdir_fault read_fault sched w)))
           = length files
       \<and> length (filter (\<lambda>r. r = ''Uh oh! Had trouble opening a todo...'')
                  (drop (length (replies w)) (replies (show_handler toString readdir_fault read_fault sched w))))
           = length (filter (\<lambda>file. isl (fs_readFile (read_fault (path_join DATA_DIR file))
                                            (path_join DATA_DIR file) (disk w))) files)
       \<and> mset (drop (length (replies w)) (replies (show_handler toString readdir_fault read_fault sched w)))
           = mset (map (\<lambda>file. case fs_readFile (read_fault (path_join DATA_DIR file))
                                       (path_join DATA_DIR file) (disk w) of
                                  Inl error \<Rightarrow> ''Uh oh! Had trouble opening a todo...''
                                | Inr data \<Rightarrow> file @ '': '' @ toString data) files)"
proof -
  let ?w' = "show_handler toString readdir_fault read_fault sched w"
  let ?line = "reply_line toString read_fault (disk w)"
  let ?new = "map ?line (completion_order sched files)"
  have r: "replies ?w' = replies w @ ?new"
    using assms by (rule show_handler_files(1))
  have new: "drop (length (replies w)) (replies ?w') = ?new"
    by (simp add: r)
  have m: "mset ?new = mset (map ?line files)"
    by (simp add: completion_order_mset)
  have c1: "calls ?w' = calls w @ ReadDir DATA_DIR # map (\<lambda>file. ReadFile (path_join DATA_DIR file)) files"
    using assms by (rule show_handler_files(2))
  have c2: "take (length (replies w)) (replies ?w') = replies w"
    by (simp add: r)
  have c3: "length ?new = length files"
    by (simp add: completion_order_length)
  have "mset (filter (\<lambda>r. r = ''Uh oh! Had trouble opening a todo...'') ?new)
      = mset (filter (\<lambda>r. r = ''Uh oh! Had trouble opening a todo...'') (map ?line files))"
    using m by (metis mset_filter)
  then have "length (filter (\<lambda>r. r = ''Uh oh! Had trouble opening a todo...'') ?new)
      = length (filter (\<lambda>r. r = ''Uh oh! Had trouble opening a todo...'') (map ?line files))"
    by (metis size_mset)
  also have "\<dots> = length (filter (\<lambda>file. isl (fs_readFile (read_fault (path_join DATA_DIR file))
                                            (path_join DATA_DIR file) (disk w))) files)"
    by (simp add: filter_map comp_def reply_line_fail)
  finally have c4: "length (filter (\<lambda>r. r = ''Uh oh! Had trouble opening a todo...'') ?new)
      = length (filter (\<lambda>file. isl (fs_readFile (read_fault (path_join DATA_DIR file))
                                            (path_join DATA_DIR file) (disk w))) files)" .
  have c5: "mset ?new = mset (map (\<lambda>file. case fs_readFile (read_fault (path_join DATA_DIR file))
                                       (path_join DATA_DIR file) (disk w) of
                                  Inl error \<Rightarrow> ''Uh oh! Had trouble opening a todo...''
                                | Inr data \<Rightarrow> file @ '': '' @ toString data) files)"
    using m by (simp add: reply_line_def [abs_def])
  show ?thesis
    unfolding new using c1 c2 c3 c4 c5 by blast
qed

theorem list_reads_independent_witness:
  "fs_readdir None DATA_DIR (disk demo_world) = Inr [''a'', ''b'', ''c'']
   \<and> length (replies (show_handler demo_toString None demo_fault [2, 0] demo_world)) = 3
   \<and> length (filter (\<lambda>r. r = ''Uh oh! Had trouble opening a todo...'')
        (replies (show_handler demo_toString None demo_fault [2, 0] demo_world))) = 1
   \<and> calls (show_handler demo_toString None demo_fault [2, 0] demo_world)
        = [ReadDir ''todos'', ReadFile ''todos/a'', ReadFile ''todos/b'', ReadFile ''todos/c'']"
proof -
  have n: "[''a'', ''b'', ''c''] \<noteq> []" by simp
  have r: "replies demo_world = []" "calls demo_world = []" by (simp_all add: demo_world_def)
  have d: "disk demo_world = [(''todos/a'', ascii_encode ''buy milk''), (''notes.txt'', ascii_encode ''x''),
              (''todos/b'', ascii_encode ''call bob''), (''todos/c'', ascii_encode ''pay rent'')]"
    by (simp add: demo_world_def)
  have "length (replies (show_handler demo_toString None demo_fault [2, 0] demo_world)) = 3
   \<and> length (filter (\<lambda>r. r = ''Uh oh! Had trouble opening a todo...'')
        (replies (show_handler demo_toString None demo_fault [2, 0] demo_world))) = 1
   \<and> calls (show_handler demo_toString None demo_fault [2, 0] demo_world)
        = [ReadDir ''todos'', ReadFile ''todos/a'', ReadFile ''todos/b'', ReadFile ''todos/c'']"
    using list_reads_independent [OF demo_readdir n, of demo_toString demo_fault "[2, 0]"]
    by (simp add: demo_paths r d demo_fault_def fs_readFile_def DATA_DIR_def)
  with demo_readdir show ?thesis by simp
qed

text \<open>
  Claim C9. Over a directory with entries, whatever the order in which the reads
  complete: the replies other than the message about a failed read are, up to their
  order, the lines \<open><id>: <content>\<close> of the files whose read succeeds, one line for each
  of them, where \<open><id>\<close> is the name the enumeration gave and \<open><content>\<close> is the decoding of
  all the bytes stored under that name.
\<close>

theorem list_lines_of_read_files:
  assumes "fs_readdir readdir_fault DATA_DIR (disk w) = Inr files" and "files \<noteq> []"
  shows "mset (filter (\<lambda>r. r \<noteq> ''Uh oh! Had trouble opening a todo...'')
                (drop (length (replies w)) (replies (show_handler toString readdir_fault read_fault sched w))))
           = mset (map (\<lambda>file. file @ '': '' @
                          toString (projr (fs_readFile (read_fault (path_join DATA_DIR file))
                                             (path_join DATA_DIR file) (disk w))))
                    (filter (\<lambda>file. \<not> isl (fs_readFile (read_fault (path_join DATA_DIR file))
                                              (path_join DATA_DIR file) (disk w))) files))
       \<and> (\<forall>file \<in> set files. \<forall>data.
             fs_readFile (read_fault (path_join DATA_DIR file)) (path_join DATA_DIR file) (disk w) = Inr data
             \<longrightarrow> map_of (disk w) (path_join DATA_DIR file) = Some data
                 \<and> file @ '': '' @ toString data
                     \<in> set (drop (length (replies w))
                              (replies (show_handler toString readdir_fault read_fault sched w))))"
proof -
  let ?w' = "show_handler toString readdir_fault read_fault sched w"
  let ?line = "reply_line toString read_fault (disk w)"
  let ?new = "map ?line (completion_order sched files)"
  let ?ok = "\<lambda>file. \<not> isl (fs_readFile (read_fault (path_join DATA_DIR file))
                              (path_join DATA_DIR file) (disk w))"
  let ?P = "\<lambda>r. r \<noteq> ''Uh oh! Had trouble opening a todo...''"
  have r: "replies ?w' = replies w @ ?new"
    using assms by (rule show_handler_files(1))
  have new: "drop (length (replies w)) (replies ?w') = ?new"
    by (simp add: r)
  have m: "mset ?new = mset (map ?line files)"
    by (simp add: completion_order_mset)
  have "mset (filter ?P ?new) = mset (filter ?P (map ?line files))"
    using m by (metis mset_filter)
  also have "filter ?P (map ?line files) = map ?line (filter ?ok files)"
    by (simp add: filter_map comp_def reply_line_fail)
  also have "map ?line (filter ?ok files)
      = map (\<lambda>file. file @ '': '' @
               toString (projr (fs_readFile (read_fault (path_join DATA_DIR file))
                                  (path_join DATA_DIR file) (disk w))))
          (filter ?ok files)"
    by (rule map_cong) (auto simp add: reply_line_def split: sum.splits)
  finally have c1: "mset (filter ?P ?new)
      = mset (map (\<lambda>file. file @ '': '' @
               toString (projr (fs_readFile (read_fault (path_join DATA_DIR file))
                                  (path_join DATA_DIR file) (disk w))))
          (filter ?ok files))" .
  have c2: "\<forall>file \<in> set files. \<forall>data.
             fs_readFile (read_fault (path_join DATA_DIR file)) (path_join DATA_DIR file) (disk w) = Inr data
             \<longrightarrow> map_of (disk w) (path_join DATA_DIR file) = Some data
                 \<and> file @ '': '' @ toString data \<in> set ?new"
  proof (intro ballI allI impI conjI)
    fix name data
    assume f: "name \<in> set files"
      and rd: "fs_readFile (read_fault (path_join DATA_DIR name)) (path_join DATA_DIR name) (disk w) = Inr data"
    from rd show "map_of (disk w) (path_join DATA_DIR name) = Some data"
      by (auto simp add: fs_readFile_def split: option.splits)
    have "set (completion_order sched files) = set files"
      using completion_order_mset [of sched files] by (metis set_mset_mset)
    with f have "?line name \<in> set ?new" by simp
    with rd show "name @ '': '' @ toString data \<in> set ?new"
      by (simp add: reply_line_def)
  qed
  show ?thesis unfolding new using c1 c2 by blast
qed

theorem list_lines_of_read_files_witness:
  "fs_readdir None DATA_DIR (disk demo_world) = Inr [''a'', ''b'', ''c'']
   \<and> mset (filter (\<lambda>r. r \<noteq> ''Uh oh! Had trouble opening a todo...'')
        (replies (show_handler demo_toString None demo_fault [2, 0] demo_world)))
       = mset [''a: buy milk'', ''c: pay rent'']"
proof -
  have n: "[''a'', ''b'', ''c''] \<noteq> []" by simp
  have r: "replies demo_world = []" "calls demo_world = []" by (simp_all add: demo_world_def)
  have d: "disk demo_world = [(''todos/a'', ascii_encode ''buy milk''), (''notes.txt'', ascii_encode ''x''),
              (''todos/b'', ascii_encode ''call bob''), (''todos/c'', ascii_encode ''pay rent'')]"
    by (simp add: demo_world_def)
  have s: "demo_toString (ascii_encode ''buy milk'') = ''buy milk''"
     "demo_toString (ascii_encode ''pay rent'') = ''pay rent''"
    by code_simp+
  have "mset (filter (\<lambda>r. r \<noteq> ''Uh oh! Had trouble opening a todo...'')
        (replies (show_handler demo_toString None demo_fault [2, 0] demo_world)))
       = mset [''a: buy milk'', ''c: pay rent'']"
    using list_lines_of_read_files [OF demo_readdir n, of demo_toString demo_fault "[2, 0]"]
    by (simp add: demo_paths r d s demo_fault_def fs_readFile_def)
  with demo_readdir show ?thesis by simp
qed

subsection \<open>Removing\<close>

text \<open>
  Claim C1 says that the remove handler runs only on an id of the shape 8-4-4-4-12. The
  expression asks for 36 characters of the class and places no hyphen: a message to the
  robot \<open>hubot\<close> whose id is four hyphens followed by 32 hexadecimal digits is dispatched,
  and the handler calls \<open>unlink\<close>.
\<close>

theorem remove_dispatch_counterexample:
  "respond_remove_match ''hubot'' None ''hubot ----deadbeefdeadbeefdeadbeefdeadbeef is done''
      = Some ''----deadbeefdeadbeefdeadbeefdeadbeef''
   \<and> \<not> uuid_shape ''----deadbeefdeadbeefdeadbeefdeadbeef''
   \<and> calls (robot_respond_remove ''hubot'' None None
               ''hubot ----deadbeefdeadbeefdeadbeefdeadbeef is done''
               \<lparr>disk = [], replies = [], calls = []\<rparr>)
      = [Unlink ''todos/----deadbeefdeadbeefdeadbeefdeadbeef'']
   \<and> replies (robot_respond_remove ''hubot'' None None
               ''hubot ----deadbeefdeadbeefdeadbeefdeadbeef is done''
               \<lparr>disk = [], replies = [], calls = []\<rparr>)
      = [''Couldn't find ----deadbeefdeadbeefdeadbeefdeadbeef'']"
proof -
  have i: "length odd_id = 36" "list_all id_char odd_id"
    by (simp_all add: odd_id_def id_char_def hex_digit_def)
  have e: "respond_remove_match ''hubot'' None ''hubot ----deadbeefdeadbeefdeadbeefdeadbeef is done''
      = Some ''----deadbeefdeadbeefdeadbeefdeadbeef''"
    using respond_addressed [OF i to_upper_literal, of "''hubot''" None]
    by (simp add: odd_id_def)
  have p: "path_join DATA_DIR ''----deadbeefdeadbeefdeadbeefdeadbeef''
      = ''todos/----deadbeefdeadbeefdeadbeefdeadbeef''"
    using dispatched_path(1) [OF respond_implies_exec [OF e]] by (simp add: DATA_DIR_def)
  have n: "\<not> uuid_shape ''----deadbeefdeadbeefdeadbeefdeadbeef''"
    using odd_id_not_shape by (simp add: odd_id_def)
  have r: "robot_respond_remove ''hubot'' None None
               ''hubot ----deadbeefdeadbeefdeadbeefdeadbeef is done''
               \<lparr>disk = [], replies = [], calls = []\<rparr>
      = remove_handler None ''----deadbeefdeadbeefdeadbeefdeadbeef''
               \<lparr>disk = [], replies = [], calls = []\<rparr>"
    unfolding robot_respond_remove_def e by simp
  have c: "calls (remove_handler None ''----deadbeefdeadbeefdeadbeefdeadbeef''
               \<lparr>disk = [], replies = [], calls = []\<rparr>)
      = [Unlink ''todos/----deadbeefdeadbeefdeadbeefdeadbeef'']"
    by (simp add: remove_handler_sel p)
  have m: "replies (remove_handler None ''----deadbeefdeadbeefdeadbeefdeadbeef''
               \<lparr>disk = [], replies = [], calls = []\<rparr>)
      = [''Couldn't find ----deadbeefdeadbeefdeadbeefdeadbeef'']"
    by (simp add: remove_handler_sel p fs_unlink_def)
  show ?thesis
    unfolding r using e n c m by blast
qed

text \<open>
  Claim C1, amended. The remove handler runs only on an id of 36 characters that are each
  a hexadecimal digit or a hyphen, in either case and in any arrangement: the id is the 36
  characters in front of the \<open> is done\<close> that ends the text. On every text that does not
  end in 36 such characters followed by \<open> is done\<close> the handler is not run at all: the
  state is untouched.
\<close>

theorem remove_dispatch:
  "(respond_remove_match name alias text = Some g \<longrightarrow>
      length g = 36 \<and> list_all id_char g
      \<and> 44 \<le> length text
      \<and> g = take 36 (drop (length text - 44) text)
      \<and> matches_literal_ci '' is done'' (drop (length text - 8) text)
      \<and> robot_respond_remove name alias unlink_fault text w = remove_handler unlink_fault g w)
   \<and> (\<not> (44 \<le> length other
          \<and> list_all id_char (take 36 (drop (length other - 44) other))
          \<and> matches_literal_ci '' is done'' (drop (length other - 8) other)) \<longrightarrow>
        respond_remove_match name alias other = None
        \<and> robot_respond_remove name alias unlink_fault other w = w)"
proof -
  have a: "respond_remove_match name alias text = Some g \<longrightarrow>
      length g = 36 \<and> list_all id_char g
      \<and> 44 \<le> length text
      \<and> g = take 36 (drop (length text - 44) text)
      \<and> matches_literal_ci '' is done'' (drop (length text - 8) text)
      \<and> robot_respond_remove name alias unlink_fault text w = remove_handler unlink_fault g w"
  proof
    assume m: "respond_remove_match name alias text = Some g"
    then have e: "remove_regex_exec text = Some g" by (rule respond_implies_exec)
    have t: "44 \<le> length text \<and> g = take 36 (drop (length text - 44) text)
       \<and> list_all id_char g \<and> matches_literal_ci '' is done'' (drop (length text - 8) text)"
      using e unfolding remove_regex_exec_tail .
    have l: "length g = 36" using e by (rule dispatched_id(1))
    have r: "robot_respond_remove name alias unlink_fault text w = remove_handler unlink_fault g w"
      using m by (simp add: robot_respond_remove_def)
    show "length g = 36 \<and> list_all id_char g
      \<and> 44 \<le> length text
      \<and> g = take 36 (drop (length text - 44) text)
      \<and> matches_literal_ci '' is done'' (drop (length text - 8) text)
      \<and> robot_respond_remove name alias unlink_fault text w = remove_handler unlink_fault g w"
      using t l r by blast
  qed
  have b: "\<not> (44 \<le> length other
          \<and> list_all id_char (take 36 (drop (length other - 44) other))
          \<and> matches_literal_ci '' is done'' (drop (length other - 8) other)) \<longrightarrow>
        respond_remove_match name alias other = None
        \<and> robot_respond_remove name alias unlink_fault other w = w"
  proof
    assume h: "\<not> (44 \<le> length other
          \<and> list_all id_char (take 36 (drop (length other - 44) other))
          \<and> matches_literal_ci '' is done'' (drop (length other - 8) other))"
    have "respond_remove_match name alias other = None"
    proof (cases "respond_remove_match name alias other")
      case None
      then show ?thesis .
    next
      case (Some g')
      then have "remove_regex_exec other = Some g'" by (rule respond_implies_exec)
      then have "44 \<le> length other \<and> g' = take 36 (drop (length other - 44) other)
         \<and> list_all id_char g' \<and> matches_literal_ci '' is done'' (drop (length other - 8) other)"
        unfolding remove_regex_exec_tail .
      with h show ?thesis by blast
    qed
    then show "respond_remove_match name alias other = None
        \<and> robot_respond_remove name alias unlink_fault other w = w"
      by (simp add: robot_respond_remove_def)
  qed
  show ?thesis using a b by blast
qed

theorem remove_dispatch_witness:
  "respond_remove_match ''hubot'' None (''hubot '' @ demo_id @ '' IS done'') = Some demo_id
   \<and> length demo_id = 36 \<and> list_all id_char demo_id
   \<and> robot_respond_remove ''hubot'' None None (''hubot '' @ demo_id @ '' IS done'') empty_world
       = remove_handler None demo_id empty_world
   \<and> \<not> (44 \<le> length ''hubot 123e4567-e89b-12d3-a456-42661417400g is done''
         \<and> list_all id_char (take 36 (drop
              (length ''hubot 123e4567-e89b-12d3-a456-42661417400g is done'' - 44)
              ''hubot 123e4567-e89b-12d3-a456-42661417400g is done''))
         \<and> matches_literal_ci '' is done'' (drop
              (length ''hubot 123e4567-e89b-12d3-a456-42661417400g is done'' - 8)
              ''hubot 123e4567-e89b-12d3-a456-42661417400g is done''))
   \<and> robot_respond_remove ''hubot'' None None
        ''hubot 123e4567-e89b-12d3-a456-42661417400g is done'' empty_world = empty_world"
proof -
  have l: "matches_literal_ci '' is done'' '' IS done''"
    by code_simp
  have i: "length demo_id = 36" "list_all id_char demo_id"
    using uuid_shape_id [OF demo_id_shape] by simp_all
  have e: "respond_remove_match ''hubot'' None (''hubot '' @ demo_id @ '' IS done'') = Some demo_id"
    using respond_addressed [OF i l, of "''hubot''" None] by simp
  have h: "\<not> (44 \<le> length ''hubot 123e4567-e89b-12d3-a456-42661417400g is done''
         \<and> list_all id_char (take 36 (drop
              (length ''hubot 123e4567-e89b-12d3-a456-42661417400g is done'' - 44)
              ''hubot 123e4567-e89b-12d3-a456-42661417400g is done''))
         \<and> matches_literal_ci '' is done'' (drop
              (length ''hubot 123e4567-e89b-12d3-a456-42661417400g is done'' - 8)
              ''hubot 123e4567-e89b-12d3-a456-42661417400g is done''))"
    by code_simp
  show ?thesis
    using e h
      remove_dispatch [of "''hubot''" None "''hubot '' @ demo_id @ '' IS done''" demo_id None
         empty_world "''hubot 123e4567-e89b-12d3-a456-42661417400g is done''"]
    by blast
qed

text \<open>
  Claim C10. An id that the expression of the listener matches consists of hexadecimal
  digits and hyphens only, so it holds no separator and no dot; the path the handler
  deletes is the storage directory, a separator and the id, a direct child of the storage
  directory; and the entries of the file system outside the storage directory are the
  same after the handler as before. A text that the robot dispatches is matched by the
  expression of the listener with the same id, so that, whatever the text of a message,
  the entries outside the storage directory are the same after the robot has handled it.
\<close>

theorem remove_stays_in_directory:
  assumes "remove_regex_exec text = Some id'"
  shows "list_all id_char id'
       \<and> CHR ''/'' \<notin> set id' \<and> CHR ''.'' \<notin> set id' \<and> id' \<noteq> ''..''
       \<and> path_join DATA_DIR id' = DATA_DIR @ ''/'' @ id'
       \<and> child_of DATA_DIR (path_join DATA_DIR id') = Some id'
       \<and> calls (remove_handler unlink_fault id' w) = calls w @ [Unlink (DATA_DIR @ ''/'' @ id')]
       \<and> filter (\<lambda>(p, data). child_of DATA_DIR p = None) (disk (remove_handler unlink_fault id' w))
           = filter (\<lambda>(p, data). child_of DATA_DIR p = None) (disk w)
       \<and> (respond_remove_match name alias text \<noteq> None \<longrightarrow>
            respond_remove_match name alias text = Some id'
            \<and> robot_respond_remove name alias unlink_fault text w = remove_handler unlink_fault id' w)
       \<and> filter (\<lambda>(p, data). child_of DATA_DIR p = None)
            (disk (robot_respond_remove name alias unlink_fault other w))
           = filter (\<lambda>(p, data). child_of DATA_DIR p = None) (disk w)"
proof -
  let ?p = "DATA_DIR @ ''/'' @ id'"
  have i: "list_all id_char id'" "CHR ''/'' \<notin> set id'" "CHR ''.'' \<notin> set id'" "id' \<noteq> ''..''"
    using id_plain [OF dispatched_id [OF assms]] dispatched_id(2) [OF assms] by blast+
  have p: "path_join DATA_DIR id' = ?p" using assms by (rule dispatched_path(1))
  have c: "child_of DATA_DIR ?p = Some id'" using assms by (rule dispatched_path(2))
  have k: "calls (remove_handler unlink_fault id' w) = calls w @ [Unlink ?p]"
    unfolding remove_handler_sel p by (rule refl)
  have d: "filter (\<lambda>(q, data). child_of DATA_DIR q = None) (disk (remove_handler unlink_fault id' w))
       = filter (\<lambda>(q, data). child_of DATA_DIR q = None) (disk w)"
    using assms by (rule remove_handler_outside)
  have m: "respond_remove_match name alias text \<noteq> None \<longrightarrow>
            respond_remove_match name alias text = Some id'
            \<and> robot_respond_remove name alias unlink_fault text w = remove_handler unlink_fault id' w"
  proof
    assume "respond_remove_match name alias text \<noteq> None"
    then obtain g where g: "respond_remove_match name alias text = Some g" by blast
    then have "remove_regex_exec text = Some g" by (rule respond_implies_exec)
    with assms have "g = id'" by simp
    with g show "respond_remove_match name alias text = Some id'
            \<and> robot_respond_remove name alias unlink_fault text w = remove_handler unlink_fault id' w"
      by (simp add: robot_respond_remove_def)
  qed
  have o: "filter (\<lambda>(q, data). child_of DATA_DIR q = None)
            (disk (robot_respond_remove name alias unlink_fault other w))
           = filter (\<lambda>(q, data). child_of DATA_DIR q = None) (disk w)"
    using robot_respond_remove_cases [of name "alias" unlink_fault other w] remove_handler_outside
    by force
  show ?thesis
    unfolding p using i c k d m o by blast
qed

theorem remove_stays_in_directory_witness:
  "remove_regex_exec (''hubot '' @ demo_id @ '' is done'') = Some demo_id
   \<and> respond_remove_match ''hubot'' None (''hubot '' @ demo_id @ '' is done'') = Some demo_id
   \<and> path_join DATA_DIR demo_id = demo_path
   \<and> calls (robot_respond_remove ''hubot'' None None (''hubot '' @ demo_id @ '' is done'') stored_world)
       = [Unlink demo_path]
   \<and> filter (\<lambda>(p, data). child_of DATA_DIR p = None)
        (disk (robot_respond_remove ''hubot'' None None (''hubot '' @ demo_id @ '' is done'') stored_world))
       = [(''notes.txt'', ascii_encode ''x'')]"
proof -
  have a: "respond_remove_match ''hubot'' None (''hubot '' @ demo_id @ '' is done'') = Some demo_id"
    using demo_addressed [of "''hubot''" None] by simp
  have e: "remove_regex_exec (''hubot '' @ demo_id @ '' is done'') = Some demo_id"
    using a by (rule respond_implies_exec)
  have o: "filter (\<lambda>(p, data). child_of DATA_DIR p = None) (disk stored_world)
      = [(''notes.txt'', ascii_encode ''x'')]"
    by (simp add: stored_world_def child_of_def DATA_DIR_def demo_path_def)
  have k: "calls stored_world = []" by (simp add: stored_world_def)
  have "path_join DATA_DIR demo_id = demo_path
   \<and> calls (robot_respond_remove ''hubot'' None None (''hubot '' @ demo_id @ '' is done'') stored_world)
       = [Unlink demo_path]
   \<and> filter (\<lambda>(p, data). child_of DATA_DIR p = None)
        (disk (robot_respond_remove ''hubot'' None None (''hubot '' @ demo_id @ '' is done'') stored_world))
       = [(''notes.txt'', ascii_encode ''x'')]"
    using a remove_stays_in_directory [OF e, of None stored_world "''hubot''" None
         "''hubot '' @ demo_id @ '' is done''"]
    by (auto simp add: demo_path_eq o k)
  with a e show ?thesis by blast
qed

text \<open>
  Claim C6. For an id that is dispatched: the deletion fails exactly when the operating
  system reports an error, whichever it is, or no file has that name; the reply is then
  \<open>Couldn't find <id>\<close> and the file system is as before. When the deletion succeeds the
  reply is \<open>OK! Removed <id>\<close> and the file system has lost the file of that name in the
  storage directory and nothing else.
\<close>

theorem remove_reply_and_effect:
  assumes "remove_regex_exec text = Some id'"
  shows "((fst (fs_unlink unlink_fault (path_join DATA_DIR id') (disk w)) \<noteq> None)
            = (unlink_fault \<noteq> None \<or> map_of (disk w) (DATA_DIR @ ''/'' @ id') = None))
       \<and> (fst (fs_unlink unlink_fault (path_join DATA_DIR id') (disk w)) \<noteq> None \<longrightarrow>
            replies (remove_handler unlink_fault id' w) = replies w @ [''Couldn't find '' @ id']
            \<and> disk (remove_handler unlink_fault id' w) = disk w)
       \<and> (fst (fs_unlink unlink_fault (path_join DATA_DIR id') (disk w)) = None \<longrightarrow>
            replies (remove_handler unlink_fault id' w) = replies w @ [''OK! Removed '' @ id']
            \<and> disk (remove_handler unlink_fault id' w) = AList.delete (DATA_DIR @ ''/'' @ id') (disk w)
            \<and> map_of (disk (remove_handler unlink_fault id' w))
                = (map_of (disk w))(DATA_DIR @ ''/'' @ id' := None))
       \<and> calls (remove_handler unlink_fault id' w) = calls w @ [Unlink (DATA_DIR @ ''/'' @ id')]"
proof -
  have p: "path_join DATA_DIR id' = DATA_DIR @ ''/'' @ id'"
    using assms by (rule dispatched_path(1))
  show ?thesis
    unfolding remove_handler_sel p fs_unlink_cases
    by (auto simp add: AList.delete_conv' split: option.splits)
qed

theorem remove_reply_and_effect_witness:
  "remove_regex_exec (demo_id @ '' is done'') = Some demo_id
   \<and> fst (fs_unlink None (path_join DATA_DIR demo_id) (disk stored_world)) = None
   \<and> replies (remove_handler None demo_id stored_world) = [''OK! Removed '' @ demo_id]
   \<and> disk (remove_handler None demo_id stored_world) = [(''notes.txt'', ascii_encode ''x'')]
   \<and> fst (fs_unlink (Some EACCES) (path_join DATA_DIR demo_id) (disk stored_world)) \<noteq> None
   \<and> replies (remove_handler (Some EACCES) demo_id stored_world) = [''Couldn't find '' @ demo_id]
   \<and> disk (remove_handler (Some EACCES) demo_id stored_world) = disk stored_world
   \<and> fst (fs_unlink None (path_join DATA_DIR demo_id) (disk empty_world)) \<noteq> None
   \<and> replies (remove_handler None demo_id empty_world) = [''Couldn't find '' @ demo_id]
   \<and> disk (remove_handler None demo_id empty_world) = disk empty_world"
proof -
  have s: "disk stored_world = [(''notes.txt'', ascii_encode ''x''), (demo_path, ascii_encode ''buy milk'')]"
    "replies stored_world = []" "disk empty_world = []" "replies empty_world = []"
    by (simp_all add: stored_world_def empty_world_def)
  have ne: "demo_path \<noteq> ''notes.txt''" by (simp add: demo_path_def)
  have u: "fst (fs_unlink None (path_join DATA_DIR demo_id) (disk stored_world)) = None"
    "fst (fs_unlink (Some EACCES) (path_join DATA_DIR demo_id) (disk stored_world)) \<noteq> None"
    "fst (fs_unlink None (path_join DATA_DIR demo_id) (disk empty_world)) \<noteq> None"
    using ne by (simp_all add: demo_path_join s fs_unlink_def)
  have d: "AList.delete demo_path (disk stored_world) = [(''notes.txt'', ascii_encode ''x'')]"
    using ne by (simp add: s AList.delete_eq)
  show ?thesis
    using u d demo_dispatched
      remove_reply_and_effect [OF demo_dispatched, of None stored_world]
      remove_reply_and_effect [OF demo_dispatched, of "Some EACCES" stored_world]
      remove_reply_and_effect [OF demo_dispatched, of None empty_world]
    by (simp add: demo_path_eq s)
qed


subsection \<open>Adding\<close>

text \<open>
  Claim C2. Let the id drawn by the add handler have the shape of a UUID and name no
  file of the storage directory yet. Then adding a todo and removing the id that was
  drawn, by the handler or by a message to the robot, with or without listings in
  between, leaves the file system exactly as it was before, names and contents. After an
  add whose write succeeds, the file system holds one more entry.
\<close>

theorem add_then_remove_roundtrip:
  assumes "uuid_shape ID" and "map_of (disk w) (DATA_DIR @ ''/'' @ ID) = None"
  shows "disk (remove_handler None ID (add_handler ID write_fault todo w)) = disk w
       \<and> disk (robot_respond_remove name alias None (name @ '' '' @ ID @ '' is done'')
                 (add_handler ID write_fault todo w)) = disk w
       \<and> disk (show_handler toString rd2 rf2 sched2
                 (robot_respond_remove name alias None (name @ '' '' @ ID @ '' is done'')
                    (show_handler toString rd1 rf1 sched1 (add_handler ID write_fault todo w)))) = disk w
       \<and> disk (add_handler ID None todo w) = disk w @ [(DATA_DIR @ ''/'' @ ID, ascii_encode todo)]"
proof -
  let ?p = "DATA_DIR @ ''/'' @ ID"
  have p: "path_join DATA_DIR ID = ?p" using assms(1) by (rule uuid_path(1))
  have i: "length ID = 36" "list_all id_char ID" using uuid_shape_id [OF assms(1)] by blast+
  have e: "respond_remove_match name alias (name @ '' '' @ ID @ '' is done'') = Some ID"
    using i to_upper_literal by (rule respond_addressed)
  have r: "\<And>v. robot_respond_remove name alias None (name @ '' '' @ ID @ '' is done'') v
             = remove_handler None ID v"
    unfolding robot_respond_remove_def e by simp
  have k: "?p \<notin> fst ` set (disk w)" using assms(2) by (rule fresh_not_key)
  have a: "disk (add_handler ID write_fault todo w) = disk w
         \<or> (\<exists>d. disk (add_handler ID write_fault todo w) = AList.update ?p d (disk w))"
    unfolding add_handler_sel p by (rule fs_writeFile_disk)
  have d: "\<And>v :: world. disk v = disk w \<or> (\<exists>d. disk v = AList.update ?p d (disk w))
           \<Longrightarrow> disk (remove_handler None ID v) = disk w"
  proof -
    fix v :: world
    assume "disk v = disk w \<or> (\<exists>d. disk v = AList.update ?p d (disk w))"
    then show "disk (remove_handler None ID v) = disk w"
    proof
      assume "disk v = disk w"
      then show ?thesis
        unfolding remove_handler_sel p fs_unlink_cases using assms(2) by simp
    next
      assume "\<exists>d. disk v = AList.update ?p d (disk w)"
      then obtain d where u: "disk v = AList.update ?p d (disk w)" by blast
      have "AList.delete ?p (AList.update ?p d (disk w)) = disk w"
        using k by (simp add: AList.delete_update_same)
      then show ?thesis
        unfolding remove_handler_sel p fs_unlink_cases u by (simp add: AList.update_conv')
    qed
  qed
  have c1: "disk (remove_handler None ID (add_handler ID write_fault todo w)) = disk w"
    using a by (rule d)
  have c2: "disk (remove_handler None ID (show_handler toString rd1 rf1 sched1 (add_handler ID write_fault todo w))) = disk w"
    using a by (intro d) (simp add: show_handler_disk)
  have c3: "disk (add_handler ID None todo w) = disk w @ [(?p, ascii_encode todo)]"
    unfolding add_handler_sel p fs_writeFile_cases using assms(2) by (simp add: update_fresh)
  show ?thesis
    unfolding r show_handler_disk using c1 c2 c3 by blast
qed

theorem add_then_remove_roundtrip_witness:
  "uuid_shape demo_id
   \<and> map_of (disk notes_world) (DATA_DIR @ ''/'' @ demo_id) = None
   \<and> disk (add_handler demo_id None ''buy milk'' notes_world)
       = [(''notes.txt'', ascii_encode ''x''), (demo_path, ascii_encode ''buy milk'')]
   \<and> disk (robot_respond_remove ''hubot'' None None (''hubot '' @ demo_id @ '' is done'')
        (add_handler demo_id None ''buy milk'' notes_world)) = disk notes_world
   \<and> disk (robot_respond_remove ''hubot'' None None (''hubot '' @ demo_id @ '' is done'')
        (add_handler demo_id (Some (WriteFails ENOSPC 3)) ''buy milk'' notes_world)) = disk notes_world"
proof -
  have f: "map_of (disk notes_world) (DATA_DIR @ ''/'' @ demo_id) = None"
    by (simp add: notes_world_def demo_path_eq demo_path_def)
  have d: "disk notes_world = [(''notes.txt'', ascii_encode ''x'')]" by (simp add: notes_world_def)
  have "disk (add_handler demo_id None ''buy milk'' notes_world)
       = [(''notes.txt'', ascii_encode ''x''), (demo_path, ascii_encode ''buy milk'')]
   \<and> disk (robot_respond_remove ''hubot'' None None (''hubot '' @ demo_id @ '' is done'')
        (add_handler demo_id None ''buy milk'' notes_world)) = disk notes_world
   \<and> disk (robot_respond_remove ''hubot'' None None (''hubot '' @ demo_id @ '' is done'')
        (add_handler demo_id (Some (WriteFails ENOSPC 3)) ''buy milk'' notes_world)) = disk notes_world"
    using add_then_remove_roundtrip [OF demo_id_shape f, of None "''buy milk''" "''hubot''" None]
      add_then_remove_roundtrip [OF demo_id_shape f, of "Some (WriteFails ENOSPC 3)" "''buy milk''" "''hubot''" None]
    by (simp add: demo_path_eq d)
  with demo_id_shape f show ?thesis by blast
qed

text \<open>
  Claim C5 says that a write that fails creates no file. \<open>writeFile\<close> creates the file when
  it opens it, and the handler only replies on an error: when the disk is full at the
  first write, the reply is the error message and a new, empty file named by the id is in
  the storage directory, which held no todo before.
\<close>

theorem add_write_failure_counterexample:
  "fst (fs_writeFile (Some (WriteFails ENOSPC 0)) ''todos/123e4567-e89b-12d3-a456-426614174000''
         (ascii_encode ''buy milk'') [(''notes.txt'', [120])]) = Some ENOSPC
   \<and> replies (add_handler ''123e4567-e89b-12d3-a456-426614174000'' (Some (WriteFails ENOSPC 0))
        ''buy milk'' \<lparr>disk = [(''notes.txt'', [120])], replies = [], calls = []\<rparr>)
       = [''Oh no... I couldn't write the todo file...'']
   \<and> disk (add_handler ''123e4567-e89b-12d3-a456-426614174000'' (Some (WriteFails ENOSPC 0))
        ''buy milk'' \<lparr>disk = [(''notes.txt'', [120])], replies = [], calls = []\<rparr>)
       = [(''notes.txt'', [120]), (''todos/123e4567-e89b-12d3-a456-426614174000'', [])]
   \<and> fs_readdir None ''todos'' [(''notes.txt'', [120])] = Inr []
   \<and> fs_readdir None ''todos''
        (disk (add_handler ''123e4567-e89b-12d3-a456-426614174000'' (Some (WriteFails ENOSPC 0))
           ''buy milk'' \<lparr>disk = [(''notes.txt'', [120])], replies = [], calls = []\<rparr>))
       = Inr [''123e4567-e89b-12d3-a456-426614174000'']"
proof -
  have p: "path_join DATA_DIR ''123e4567-e89b-12d3-a456-426614174000''
      = ''todos/123e4567-e89b-12d3-a456-426614174000''"
    using demo_path_join by (simp add: demo_id_def demo_path_def)
  have a: "fst (fs_writeFile (Some (WriteFails ENOSPC 0)) ''todos/123e4567-e89b-12d3-a456-426614174000''
         (ascii_encode ''buy milk'') [(''notes.txt'', [120])]) = Some ENOSPC"
    by (simp add: fs_writeFile_cases)
  have b: "replies (add_handler ''123e4567-e89b-12d3-a456-426614174000'' (Some (WriteFails ENOSPC 0))
        ''buy milk'' \<lparr>disk = [(''notes.txt'', [120])], replies = [], calls = []\<rparr>)
       = [''Oh no... I couldn't write the todo file...'']"
    by (simp add: add_handler_sel p fs_writeFile_cases)
  have c: "disk (add_handler ''123e4567-e89b-12d3-a456-426614174000'' (Some (WriteFails ENOSPC 0))
        ''buy milk'' \<lparr>disk = [(''notes.txt'', [120])], replies = [], calls = []\<rparr>)
       = [(''notes.txt'', [120]), (''todos/123e4567-e89b-12d3-a456-426614174000'', [])]"
    by (simp add: add_handler_sel p fs_writeFile_cases)
  have d: "fs_readdir None ''todos'' [(''notes.txt'', [120])] = Inr []"
    by (simp add: fs_readdir_def List.map_filter_def child_of_def)
  have e: "fs_readdir None ''todos''
      [(''notes.txt'', [120]), (''todos/123e4567-e89b-12d3-a456-426614174000'', [])]
       = Inr [''123e4567-e89b-12d3-a456-426614174000'']"
    by (simp add: fs_readdir_def List.map_filter_def child_of_def)
  show ?thesis
    unfolding c using a b d e by blast
qed

text \<open>
  Claim C5, amended. When the write fails, the add handler answers with the one reply
  \<open>Oh no... I couldn't write the todo file...\<close> and it has issued the one \<open>writeFile\<close> and no
  other call: the write is not tried again, and nothing is cleaned up. When the write
  fails at the open, the file system is as before and no file is created. When it fails
  after the open, the file named by the id is there and holds the bytes written before the
  error, possibly none; it is a new file when the id named no file yet. When the write
  succeeds and the id drawn names no file yet, the file system has exactly one more entry,
  and the enumeration of the storage directory has exactly one more name, the id.
\<close>

theorem add_write_failure:
  "(fst (fs_writeFile write_fault (path_join DATA_DIR ID) (ascii_encode todo) (disk w)) \<noteq> None \<longrightarrow>
      replies (add_handler ID write_fault todo w)
        = replies w @ [''Oh no... I couldn't write the todo file...'']
      \<and> calls (add_handler ID write_fault todo w)
        = calls w @ [WriteFile (path_join DATA_DIR ID) (ascii_encode todo)])
   \<and> (write_fault = Some (OpenFails e) \<longrightarrow>
      fst (fs_writeFile write_fault (path_join DATA_DIR ID) (ascii_encode todo) (disk w)) = Some e
      \<and> disk (add_handler ID write_fault todo w) = disk w)
   \<and> (write_fault = Some (WriteFails e n) \<longrightarrow>
      fst (fs_writeFile write_fault (path_join DATA_DIR ID) (ascii_encode todo) (disk w)) = Some e
      \<and> disk (add_handler ID write_fault todo w)
        = AList.update (path_join DATA_DIR ID) (take n (ascii_encode todo)) (disk w)
      \<and> (map_of (disk w) (path_join DATA_DIR ID) = None \<longrightarrow>
           disk (add_handler ID write_fault todo w)
             = disk w @ [(path_join DATA_DIR ID, take n (ascii_encode todo))]))
   \<and> (fst (fs_writeFile write_fault (path_join DATA_DIR ID) (ascii_encode todo) (disk w)) = None
       \<and> map_of (disk w) (path_join DATA_DIR ID) = None \<longrightarrow>
      disk (add_handler ID write_fault todo w)
        = disk w @ [(path_join DATA_DIR ID, ascii_encode todo)]
      \<and> length (disk (add_handler ID write_fault todo w)) = Suc (length (disk w))
      \<and> calls (add_handler ID write_fault todo w)
        = calls w @ [WriteFile (path_join DATA_DIR ID) (ascii_encode todo)]
      \<and> (uuid_shape ID \<longrightarrow>
           fs_readdir None DATA_DIR (disk (add_handler ID write_fault todo w))
             = Inr (projr (fs_readdir None DATA_DIR (disk w)) @ [ID])))"
proof -
  let ?p = "path_join DATA_DIR ID"
  let ?w' = "add_handler ID write_fault todo w"
  have a: "fst (fs_writeFile write_fault ?p (ascii_encode todo) (disk w)) \<noteq> None \<longrightarrow>
      replies ?w' = replies w @ [''Oh no... I couldn't write the todo file...'']"
    unfolding add_handler_sel by (auto split: option.splits)
  have k: "calls ?w' = calls w @ [WriteFile ?p (ascii_encode todo)]"
    by (rule add_handler_sel(1))
  have o: "write_fault = Some (OpenFails e) \<longrightarrow>
      fst (fs_writeFile write_fault ?p (ascii_encode todo) (disk w)) = Some e
      \<and> disk ?w' = disk w"
    unfolding add_handler_sel by (simp add: fs_writeFile_cases)
  have v: "write_fault = Some (WriteFails e n) \<longrightarrow>
      fst (fs_writeFile write_fault ?p (ascii_encode todo) (disk w)) = Some e
      \<and> disk ?w' = AList.update ?p (take n (ascii_encode todo)) (disk w)
      \<and> (map_of (disk w) ?p = None \<longrightarrow>
           disk ?w' = disk w @ [(?p, take n (ascii_encode todo))])"
    unfolding add_handler_sel by (simp add: fs_writeFile_cases update_fresh)
  have b: "fst (fs_writeFile write_fault ?p (ascii_encode todo) (disk w)) = None
       \<and> map_of (disk w) ?p = None \<longrightarrow>
      disk ?w' = disk w @ [(?p, ascii_encode todo)]"
    unfolding add_handler_sel fs_writeFile_fails
    by (simp add: fs_writeFile_cases update_fresh)
  have c: "uuid_shape ID \<longrightarrow>
      fs_readdir None DATA_DIR (disk w @ [(?p, ascii_encode todo)])
        = Inr (projr (fs_readdir None DATA_DIR (disk w)) @ [ID])"
  proof
    assume u: "uuid_shape ID"
    have "child_of DATA_DIR ?p = Some ID"
      using uuid_path(1,2) [OF u] by simp
    then show "fs_readdir None DATA_DIR (disk w @ [(?p, ascii_encode todo)])
        = Inr (projr (fs_readdir None DATA_DIR (disk w)) @ [ID])"
      by (simp add: readdir_append)
  qed
  show ?thesis
    using a b c k o v by auto
qed

theorem add_write_failure_witness:
  "fst (fs_writeFile (Some (OpenFails EACCES)) (path_join DATA_DIR demo_id) (ascii_encode ''buy milk'') (disk notes_world)) \<noteq> None
   \<and> replies (add_handler demo_id (Some (OpenFails EACCES)) ''buy milk'' notes_world)
       = [''Oh no... I couldn't write the todo file...'']
   \<and> calls (add_handler demo_id (Some (OpenFails EACCES)) ''buy milk'' notes_world)
       = [WriteFile demo_path (ascii_encode ''buy milk'')]
   \<and> disk (add_handler demo_id (Some (OpenFails EACCES)) ''buy milk'' notes_world) = disk notes_world
   \<and> map_of (disk notes_world) (path_join DATA_DIR demo_id) = None
   \<and> disk (add_handler demo_id (Some (WriteFails ENOSPC 3)) ''buy milk'' notes_world)
       = disk notes_world @ [(demo_path, take 3 (ascii_encode ''buy milk''))]
   \<and> fst (fs_writeFile None (path_join DATA_DIR demo_id) (ascii_encode ''buy milk'') (disk notes_world)) = None
   \<and> uuid_shape demo_id
   \<and> disk (add_handler demo_id None ''buy milk'' notes_world)
       = disk notes_world @ [(demo_path, ascii_encode ''buy milk'')]
   \<and> fs_readdir None DATA_DIR (disk (add_handler demo_id None ''buy milk'' notes_world))
       = Inr [demo_id]"
proof -
  have s: "replies notes_world = []" "calls notes_world = []"
    by (simp_all add: notes_world_def)
  have h: "fst (fs_writeFile (Some (OpenFails EACCES)) (path_join DATA_DIR demo_id) (ascii_encode ''buy milk'') (disk notes_world)) \<noteq> None"
    "fst (fs_writeFile None (path_join DATA_DIR demo_id) (ascii_encode ''buy milk'') (disk notes_world)) = None"
    "map_of (disk notes_world) (path_join DATA_DIR demo_id) = None"
    by (simp_all add: fs_writeFile_def demo_path_join notes_world_def demo_path_def)
  have l: "fs_readdir None DATA_DIR (disk notes_world) = Inr []"
    by (simp add: notes_world_def fs_readdir_def List.map_filter_def child_of_def DATA_DIR_def)
  show ?thesis
    using h demo_id_shape
      add_write_failure [of "Some (OpenFails EACCES)" demo_id "''buy milk''" notes_world EACCES 0]
      add_write_failure [of "Some (WriteFails ENOSPC 3)" demo_id "''buy milk''" notes_world ENOSPC 3]
      add_write_failure [of None demo_id "''buy milk''" notes_world EIO 0]
    by (auto simp add: demo_path_join s l)
qed

text \<open>
  Claim C8. For every content and every id that \<open>uuid.v4\<close> draws (an id of the shape of a
  UUID): the add handler issues one \<open>writeFile\<close>, whose path is the storage directory, a
  separator and the id, with no extension, and whose data are the bytes of the content,
  one byte for each character; when the write succeeds, the file of that name holds these
  bytes, the enumeration of the storage directory contains the id, and the reply is
  \<open>OK! I added <content> to the todo list\<close>.
\<close>

theorem add_writes_file:
  assumes "uuid_shape ID"
  shows "calls (add_handler ID write_fault todo w)
           = calls w @ [WriteFile (DATA_DIR @ ''/'' @ ID) (ascii_encode todo)]
       \<and> child_of DATA_DIR (DATA_DIR @ ''/'' @ ID) = Some ID
       \<and> map unat (ascii_encode todo) = map of_char todo
       \<and> (write_fault = None \<longrightarrow>
            map_of (disk (add_handler ID write_fault todo w)) (DATA_DIR @ ''/'' @ ID)
              = Some (ascii_encode todo)
            \<and> ID \<in> set (projr (fs_readdir None DATA_DIR (disk (add_handler ID write_fault todo w))))
            \<and> replies (add_handler ID write_fault todo w)
              = replies w @ [''OK! I added '' @ todo @ '' to the todo list''])"
proof -
  let ?p = "DATA_DIR @ ''/'' @ ID"
  let ?w' = "add_handler ID write_fault todo w"
  have p: "path_join DATA_DIR ID = ?p" using assms by (rule uuid_path(1))
  have c: "child_of DATA_DIR ?p = Some ID" using assms by (rule uuid_path(2))
  have k: "calls ?w' = calls w @ [WriteFile ?p (ascii_encode todo)]"
    unfolding add_handler_sel p by (rule refl)
  have "write_fault = None \<longrightarrow>
            map_of (disk ?w') ?p = Some (ascii_encode todo)
            \<and> ID \<in> set (projr (fs_readdir None DATA_DIR (disk ?w')))
            \<and> replies ?w' = replies w @ [''OK! I added '' @ todo @ '' to the todo list'']"
  proof
    assume n: "write_fault = None"
    have m: "map_of (disk ?w') ?p = Some (ascii_encode todo)"
      unfolding add_handler_sel p fs_writeFile_cases n by (simp add: AList.update_conv')
    then have "(?p, ascii_encode todo) \<in> set (disk ?w')" by (rule map_of_SomeD)
    then have i: "ID \<in> set (projr (fs_readdir None DATA_DIR (disk ?w')))"
      using c by (rule readdir_member)
    have r: "replies ?w' = replies w @ [''OK! I added '' @ todo @ '' to the todo list'']"
      unfolding add_handler_sel p fs_writeFile_cases n by simp
    show "map_of (disk ?w') ?p = Some (ascii_encode todo)
            \<and> ID \<in> set (projr (fs_readdir None DATA_DIR (disk ?w')))
            \<and> replies ?w' = replies w @ [''OK! I added '' @ todo @ '' to the todo list'']"
      using m i r by blast
  qed
  then show ?thesis
    using k c ascii_encode_bytes [of todo] by blast
qed

theorem add_writes_file_witness:
  "uuid_shape demo_id
   \<and> calls (add_handler demo_id None ''buy milk'' notes_world)
       = [WriteFile demo_path [98, 117, 121, 32, 109, 105, 108, 107]]
   \<and> map_of (disk (add_handler demo_id None ''buy milk'' notes_world)) demo_path
       = Some [98, 117, 121, 32, 109, 105, 108, 107]
   \<and> replies (add_handler demo_id None ''buy milk'' notes_world)
       = [''OK! I added buy milk to the todo list'']"
proof -
  have s: "replies notes_world = []" "calls notes_world = []"
    by (simp_all add: notes_world_def)
  have b: "ascii_encode ''buy milk'' = [98, 117, 121, 32, 109, 105, 108, 107]"
    by (simp add: ascii_encode_def)
  show ?thesis
    using demo_id_shape add_writes_file [OF demo_id_shape, of None "''buy milk''" notes_world]
    by (simp add: demo_path_eq s b)
qed


end
